theory Spec2Isabelle
  imports Complex_Main "HOL-Library.Sublist" "HOL-Library.Multiset" "HOL-Library.AList"
begin

section \<open>Dataset conversion script \<open>scripts/convert_to_tsv.py\<close>\<close>

text \<open>
  A shallow embedding of \<^verbatim>\<open>scripts/convert_to_tsv.py\<close>. A Python string is modelled by
  the bytes of its UTF-8 encoding, the form in which the operating system holds a file
  name. The character classes of the regular expressions (\<^verbatim>\<open>\d\<close>, \<^verbatim>\<open>\w\<close>) and \<^verbatim>\<open>int\<close> work
  on the characters of the string, not on its bytes, and know the digits and letters of
  every script: on ASCII characters they are written out, on the others they are read from
  the tables of the Unicode database, a parameter of the model. Paths follow \<^verbatim>\<open>posixpath\<close>
  (separator \<^verbatim>\<open>/\<close>). Exceptions are values of type \<open>error\<close>, returned as \<open>Inl\<close>.
\<close>

subsection \<open>Exceptions and labels\<close>

datatype error =
    TypeError
  | AttributeError
  | KeyError
  | IndexError
  | NotADirectoryError
  | PathTraversal      \<comment> \<open>\<^verbatim>\<open>Exception("Attempted Path Traversal in Tar File")\<close>\<close>
  | WordnetNotFound    \<comment> \<open>\<^verbatim>\<open>Exception("Wordnet not found. ...")\<close>\<close>
  | External string    \<comment> \<open>raised by a collaborator: the operating system, a parser, the synset service\<close>

text \<open>A label is \<^verbatim>\<open>Union[str, int]\<close>; as dictionary keys \<^verbatim>\<open>"1"\<close> and \<^verbatim>\<open>1\<close> differ.\<close>

datatype label = LStr string | LInt int

text \<open>The tuple \<^verbatim>\<open>(s0, label, full_label, meta)\<close> stored per image.\<close>

type_synonym image = "string \<times> label \<times> string \<times> string"

text \<open>
  \<^verbatim>\<open>_syn_cache\<close>: \<open>None\<close> when the import of \<^verbatim>\<open>synsetizer\<close> failed, otherwise an object
  whose one operation \<^verbatim>\<open>synset_offset(term, hint)\<close> returns an identifier or raises.
\<close>

type_synonym synsetizer = "string \<Rightarrow> string \<Rightarrow> error + string"

subsection \<open>Strings\<close>

text \<open>
  The characters of a string: one ASCII byte, or a lead byte with the continuation bytes
  it announces. A byte that starts no well-formed sequence stands alone (Python holds it
  as a lone surrogate, which belongs to no character class).
\<close>

definition continuation :: "char \<Rightarrow> bool" where
  "continuation c \<longleftrightarrow> (0x80::nat) \<le> of_char c \<and> of_char c < (0xC0::nat)"

definition utf8_tail :: "char \<Rightarrow> nat" where
  "utf8_tail c =
     (let n = of_char c :: nat
      in if 0xC0 \<le> n \<and> n < 0xE0 then 1
         else if 0xE0 \<le> n \<and> n < 0xF0 then 2
         else if 0xF0 \<le> n \<and> n < 0xF8 then 3
         else 0)"

function utf8_chars :: "string \<Rightarrow> string list" where
  "utf8_chars [] = []"
| "utf8_chars (c # s) =
     (let k = utf8_tail c;
          k' = (if k \<le> length s \<and> (\<forall>b \<in> set (take k s). continuation b) then k else 0)
      in (c # take k' s) # utf8_chars (drop k' s))"
  by pat_completeness auto
termination
  by (relation "measure length") auto

definition is_ascii :: "string \<Rightarrow> bool" where
  "is_ascii c \<longleftrightarrow> (case c of [b] \<Rightarrow> of_char b < (0x80::nat) | _ \<Rightarrow> False)"

text \<open>
  The Unicode database, as \<^verbatim>\<open>re\<close> and \<^verbatim>\<open>int\<close> read it, for the characters outside ASCII:
  whether the character is a decimal digit (\<^verbatim>\<open>\d\<close>), whether it is a word character
  (\<^verbatim>\<open>\w\<close>), and the value of a decimal digit. A character is given by its bytes.
\<close>

record unicode =
  uni_digit :: "string \<Rightarrow> bool"
  uni_word :: "string \<Rightarrow> bool"
  uni_value :: "string \<Rightarrow> int"

definition digits :: string where
  "digits = ''0123456789''"

definition uppers :: string where
  "uppers = ''ABCDEFGHIJKLMNOPQRSTUVWXYZ''"

definition lowers :: string where
  "lowers = ''abcdefghijklmnopqrstuvwxyz''"

text \<open>\<^verbatim>\<open>\d\<close> and \<^verbatim>\<open>\w\<close> on one character.\<close>

definition is_digit :: "unicode \<Rightarrow> string \<Rightarrow> bool" where
  "is_digit u c \<longleftrightarrow> (if is_ascii c then hd c \<in> set digits else uni_digit u c)"

definition is_word :: "unicode \<Rightarrow> string \<Rightarrow> bool" where
  "is_word u c \<longleftrightarrow>
     (if is_ascii c
      then hd c \<in> set lowers \<or> hd c \<in> set uppers \<or> hd c \<in> set digits \<or> hd c = CHR ''_''
      else uni_word u c)"

text \<open>
  \<^verbatim>\<open>str.lower\<close>. Its results are only tested against ASCII names (the phase names, the
  extensions of images and of containers, the two patterns for annotation files). The
  lower case of a character outside ASCII holds an ASCII letter in two cases, \<^verbatim>\<open>k\<close> for
  U+212A and \<^verbatim>\<open>i\<close> followed by U+0307 for U+0130, and none of those names holds a \<^verbatim>\<open>k\<close> or
  ends in \<^verbatim>\<open>i\<close>; so the bytes outside ASCII are left as they are.
\<close>

definition lower_char :: "char \<Rightarrow> char" where
  "lower_char c = (case map_of (zip uppers lowers) c of Some l \<Rightarrow> l | None \<Rightarrow> c)"

definition lower :: "string \<Rightarrow> string" where
  "lower s = map lower_char s"

text \<open>\<^verbatim>\<open>sub in s\<close> on strings.\<close>

fun str_in :: "string \<Rightarrow> string \<Rightarrow> bool" where
  "str_in sub [] \<longleftrightarrow> sub = []"
| "str_in sub (c # s) \<longleftrightarrow> prefix sub (c # s) \<or> str_in sub s"

text \<open>\<^verbatim>\<open>s.split(sep)\<close> for a one-character separator: never an empty list.\<close>

fun split_on :: "char \<Rightarrow> string \<Rightarrow> string list" where
  "split_on sep [] = [[]]"
| "split_on sep (c # s) =
     (if c = sep then [] # split_on sep s
      else (case split_on sep s of
              [] \<Rightarrow> [[c]]
            | w # ws \<Rightarrow> (c # w) # ws))"

text \<open>\<^verbatim>\<open>path.replace("\\", "/").split("/")\<close>\<close>

definition path_elems :: "string \<Rightarrow> string list" where
  "path_elems path =
     split_on CHR ''/'' (map (\<lambda>c. if c = CHR 0x5C then CHR ''/'' else c) path)"

text \<open>\<^verbatim>\<open>int(s)\<close> on the characters of a string of decimal digits.\<close>

definition digit_val :: "unicode \<Rightarrow> string \<Rightarrow> int" where
  "digit_val u c =
     (if is_ascii c then int (length (takeWhile (\<lambda>d. d \<noteq> hd c) digits)) else uni_value u c)"

definition int_of_digits :: "unicode \<Rightarrow> string \<Rightarrow> int" where
  "int_of_digits u s = foldl (\<lambda>n c. 10 * n + digit_val u c) 0 (utf8_chars s)"

subsection \<open>\<^verbatim>\<open>os.path\<close> (posixpath)\<close>

definition basename :: "string \<Rightarrow> string" where
  "basename p = rev (takeWhile (\<lambda>c. c \<noteq> CHR ''/'') (rev p))"

text \<open>
  \<^verbatim>\<open>dirname\<close>: everything up to the last separator, with trailing separators stripped
  unless nothing else is left.
\<close>

definition dirname :: "string \<Rightarrow> string" where
  "dirname p =
     (let head = take (length p - length (basename p)) p
      in if head \<noteq> [] \<and> (\<exists>c \<in> set head. c \<noteq> CHR ''/'')
         then rev (dropWhile (\<lambda>c. c = CHR ''/'') (rev head))
         else head)"

text \<open>
  \<^verbatim>\<open>splitext\<close>: the extension starts at the last dot of the last component, provided some
  character before that dot in the component is not itself a dot.
\<close>

definition splitext :: "string \<Rightarrow> string \<times> string" where
  "splitext p =
     (let name = basename p;
          head = take (length p - length name) p;
          ext_rev = takeWhile (\<lambda>c. c \<noteq> CHR ''.'') (rev name);
          stem_rev = drop (Suc (length ext_rev)) (rev name)
      in if CHR ''.'' \<in> set name \<and> (\<exists>c \<in> set stem_rev. c \<noteq> CHR ''.'')
         then (head @ rev stem_rev, CHR ''.'' # rev ext_rev)
         else (p, []))"

text \<open>\<^verbatim>\<open>os.path.join(a, b)\<close>\<close>

definition join :: "string \<Rightarrow> string \<Rightarrow> string" where
  "join a b =
     (if prefix ''/'' b then b
      else if a = [] \<or> suffix ''/'' a then a @ b
      else a @ ''/'' @ b)"

subsection \<open>The patterns\<close>

definition valid_extensions :: "string list" where
  "valid_extensions = [''.jpg'', ''.png'']"

definition valid_phases :: "string list" where
  "valid_phases = [''train'', ''test'', ''val'']"

text \<open>
  \<^verbatim>\<open>_synset_label_pattern.match(elem)\<close> for
  \<^verbatim>\<open>^(?P<LABEL>n\d{8})(?P<EXT>_\d+)?(_(?P<META>\w+))?\<close>. The result holds the groups
  \<^verbatim>\<open>LABEL\<close>, \<^verbatim>\<open>EXT\<close> and \<^verbatim>\<open>META\<close>; a group that did not take part is \<open>None\<close>. Both
  optional groups are greedy and nothing follows them, so the first attempt of the
  matcher succeeds: \<^verbatim>\<open>EXT\<close> takes the longest run of digits, \<^verbatim>\<open>META\<close> the longest run of
  word characters. The pattern is a \<^verbatim>\<open>str\<close> pattern, so the classes are the Unicode ones
  and \<^verbatim>\<open>{8}\<close> counts characters.
\<close>

definition synset_match :: "unicode \<Rightarrow> string \<Rightarrow> (string \<times> string option \<times> string option) option" where
  "synset_match u elem =
     (let cs = utf8_chars elem
      in if prefix [''n''] cs \<and> 9 \<le> length cs \<and> (\<forall>c \<in> set (take 8 (tl cs)). is_digit u c)
         then
           (let rest1 = drop 9 cs;
                ds = takeWhile (is_digit u) (tl rest1);
                has_ext = (prefix [''_''] rest1 \<and> ds \<noteq> []);
                rest2 = (if has_ext then dropWhile (is_digit u) (tl rest1) else rest1);
                ws = takeWhile (is_word u) (tl rest2);
                has_meta = (prefix [''_''] rest2 \<and> ws \<noteq> [])
            in Some (concat (take 9 cs),
                     if has_ext then Some (CHR ''_'' # concat ds) else None,
                     if has_meta then Some (concat ws) else None))
         else None)"

text \<open>
  \<^verbatim>\<open>_coco_label_pattern.match(elem)\<close> for \<^verbatim>\<open>^(?P<META>COCO_.*)?(?P<LABEL>\d{12})$\<close>,
  giving the groups \<^verbatim>\<open>META\<close> and \<^verbatim>\<open>LABEL\<close>. \<^verbatim>\<open>$\<close> also matches before a final newline,
  and \<^verbatim>\<open>.\<close> matches no newline.
\<close>

definition coco_match :: "unicode \<Rightarrow> string \<Rightarrow> (string option \<times> string) option" where
  "coco_match u elem =
     (let cs = utf8_chars elem;
          body = (if suffix [[CHR 0x0A]] cs then butlast cs else cs);
          pre = take (length body - 12) body;
          lab = drop (length body - 12) body
      in if length lab = 12 \<and> (\<forall>c \<in> set lab. is_digit u c)
         then (if pre = [] then Some (None, concat lab)
               else if prefix (utf8_chars ''COCO_'') pre \<and> [CHR 0x0A] \<notin> set (drop 5 pre)
                    then Some (Some (concat pre), concat lab)
               else None)
         else None)"

subsection \<open>\<^verbatim>\<open>guess_phase\<close> and \<^verbatim>\<open>guess_label\<close>\<close>

text \<open>Whether one of \<^verbatim>\<open>_valid_phases\<close> occurs in the lower-cased element.\<close>

definition has_phase_name :: "string \<Rightarrow> bool" where
  "has_phase_name elem \<longleftrightarrow> (\<exists>name \<in> set valid_phases. str_in name (lower elem))"

text \<open>The loop of \<^verbatim>\<open>guess_phase\<close> over the reversed elements.\<close>

fun phase_loop :: "string list \<Rightarrow> string" where
  "phase_loop [] = []"
| "phase_loop (elem # elems) =
     (if elem = [] then phase_loop elems
      else if has_phase_name elem then elem
      else phase_loop elems)"

definition guess_phase :: "string \<Rightarrow> string" where
  "guess_phase path = phase_loop (rev (path_elems path))"

text \<open>
  The first loop of \<^verbatim>\<open>guess_label\<close>: \<open>None\<close> when no element matches, otherwise what the
  \<^verbatim>\<open>return\<close> inside the loop evaluates to. \<^verbatim>\<open>label + match.group('EXT') or ''\<close> parses as
  \<^verbatim>\<open>(label + match.group('EXT')) or ''\<close>: with \<^verbatim>\<open>EXT\<close> absent the sum is \<^verbatim>\<open>str + None\<close>,
  a \<^verbatim>\<open>TypeError\<close>; with \<^verbatim>\<open>EXT\<close> present the sum is a non-empty string, hence truthy.
\<close>

fun synset_loop :: "unicode \<Rightarrow> string list \<Rightarrow> (error + label \<times> string \<times> string) option" where
  "synset_loop u [] = None"
| "synset_loop u (elem # elems) =
     (if elem = [] then synset_loop u elems
      else (case synset_match u elem of
              None \<Rightarrow> synset_loop u elems
            | Some (lab, ext, meta) \<Rightarrow>
                (case ext of
                   None \<Rightarrow> Some (Inl TypeError)
                 | Some e \<Rightarrow>
                     Some (Inr (LStr lab,
                                (if lab @ e \<noteq> [] then lab @ e else []),
                                ''IN_'' @ (case meta of Some m \<Rightarrow> m | None \<Rightarrow> [])))))) "

definition guess_label :: "unicode \<Rightarrow> synsetizer option \<Rightarrow> string \<Rightarrow> error + label \<times> string \<times> string" where
  "guess_label u syn_cache path =
     (case synset_loop u (rev (path_elems path)) of
        Some r \<Rightarrow> r
      | None \<Rightarrow>
          (let elem = fst (splitext (basename path))
           in case coco_match u elem of
                Some (meta, lab) \<Rightarrow>
                  Inr (LInt (int_of_digits u lab), lab,
                       ''COCO_'' @ (case meta of Some m \<Rightarrow> m | None \<Rightarrow> []))
              | None \<Rightarrow>
                  (case syn_cache of
                     None \<Rightarrow> Inl AttributeError
                   | Some synset_offset \<Rightarrow>
                       (case synset_offset (basename (dirname path)) (basename elem) of
                          Inl e \<Rightarrow> Inl e
                        | Inr l \<Rightarrow> Inr (LStr l, l, l)))))"

subsection \<open>\<^verbatim>\<open>gather_images\<close>\<close>

text \<open>
  \<^verbatim>\<open>max_keep_per_label\<close> is a Python float (\<^verbatim>\<open>type=float\<close>, default \<^verbatim>\<open>np.inf\<close>). Only
  \<^verbatim>\<open>counts[label] >= max_keep_per_label\<close> reads it, and Python compares an int with a
  float exactly, so a finite float is taken as the real number it denotes.
\<close>

datatype pyfloat = Finite real | PosInf | NegInf | NaN

fun int_ge :: "int \<Rightarrow> pyfloat \<Rightarrow> bool" where
  "int_ge k (Finite r) \<longleftrightarrow> r \<le> of_int k"
| "int_ge k PosInf \<longleftrightarrow> False"
| "int_ge k NegInf \<longleftrightarrow> True"
| "int_ge k NaN \<longleftrightarrow> False"

text \<open>
  The two dictionaries that \<^verbatim>\<open>gather_images\<close> fills and the standard output. A
  dictionary is an association list in insertion order, which is the order of
  \<^verbatim>\<open>imagedata.keys()\<close>.
\<close>

record gstate =
  imagedata :: "(string \<times> image list) list"
  counts :: "(label \<times> int) list"
  stdout :: "string list"

text \<open>What \<^verbatim>\<open>main\<close> passes: \<^verbatim>\<open>images = {}\<close>, \<^verbatim>\<open>counts = {}\<close>.\<close>

definition init_state :: gstate where
  "init_state = \<lparr>imagedata = [], counts = [], stdout = []\<rparr>"

text \<open>The directory tree under the dataset root; \<^verbatim>\<open>os.listdir\<close> gives a directory's
  entries in the order of the list.\<close>

datatype fsnode = File | Dir "(string \<times> fsnode) list"

fun is_dir :: "fsnode \<Rightarrow> bool" where
  "is_dir (Dir es) \<longleftrightarrow> True"
| "is_dir File \<longleftrightarrow> False"

text \<open>
  \<^verbatim>\<open>for phase in imagedata.keys(): for name in _valid_phases: if name in phase.lower(): break\<close>.
  The \<^verbatim>\<open>break\<close> leaves the inner loop only, so the outer loop runs over every key and
  \<^verbatim>\<open>phase\<close> ends as the last one.
\<close>

fun assume_phase :: "string \<Rightarrow> string list \<Rightarrow> string" where
  "assume_phase phase [] = phase"
| "assume_phase phase (k # ks) = assume_phase k ks"

definition assumed_message :: "string \<Rightarrow> string \<Rightarrow> string" where
  "assumed_message phase s0 = ''Phase '' @ phase @ '' was assumed when processing '' @ s0"

text \<open>\<^verbatim>\<open>imagedata[phase] = [img]\<close> for a new key, \<^verbatim>\<open>imagedata[phase].append(img)\<close> otherwise.\<close>

definition add_image :: "string \<Rightarrow> image \<Rightarrow> (string \<times> image list) list \<Rightarrow> (string \<times> image list) list" where
  "add_image phase img d =
     (case map_of d phase of
        None \<Rightarrow> AList.update phase [img] d
      | Some imgs \<Rightarrow> AList.update phase (imgs @ [img]) d)"

text \<open>Lines 215 to 227: the phase of a kept image and its bucket.\<close>

definition keep_image :: "string \<Rightarrow> label \<times> string \<times> string \<Rightarrow> gstate \<Rightarrow> gstate" where
  "keep_image s0 lfm st =
     (let phase = guess_phase s0
      in if phase = []
         then
           (let phase1 = assume_phase phase (map fst (imagedata st));
                phase2 = (if phase1 = [] then ''training'' else phase1)
            in st\<lparr>imagedata := add_image phase2 (s0, lfm) (imagedata st),
                  stdout := stdout st @ [assumed_message phase2 s0]\<rparr>)
         else st\<lparr>imagedata := add_image phase (s0, lfm) (imagedata st)\<rparr>)"

text \<open>Lines 202 to 227: the body of the loop for an entry that is not a directory.\<close>

definition gather_file :: "unicode \<Rightarrow> pyfloat \<Rightarrow> synsetizer option \<Rightarrow> string \<Rightarrow> gstate \<Rightarrow> error + gstate" where
  "gather_file u max_keep_per_label syn_cache s0 st =
     (if lower (snd (splitext s0)) \<notin> set valid_extensions then Inr st
      else
        (case guess_label u syn_cache s0 of
           Inl e \<Rightarrow> Inl e
         | Inr (lab, full_label, meta) \<Rightarrow>
             (case map_of (counts st) lab of
                None \<Rightarrow>
                  Inr (keep_image s0 (lab, full_label, meta)
                         (st\<lparr>counts := AList.update lab 1 (counts st)\<rparr>))
              | Some k \<Rightarrow>
                  if int_ge k max_keep_per_label then Inr st
                  else Inr (keep_image s0 (lab, full_label, meta)
                              (st\<lparr>counts := AList.update lab (k + 1) (counts st)\<rparr>)))))"

text \<open>
  \<^verbatim>\<open>gather_images(root_path, imagedata, counts, max_keep_per_label)\<close> on the directory
  \<open>node\<close> found at \<open>root_path\<close>; \<open>gather_entries\<close> is its loop over \<^verbatim>\<open>os.listdir(root_path)\<close>.
\<close>

fun gather_images :: "unicode \<Rightarrow> pyfloat \<Rightarrow> synsetizer option \<Rightarrow> string \<Rightarrow> fsnode \<Rightarrow> gstate \<Rightarrow> error + gstate"
  and gather_entries :: "unicode \<Rightarrow> pyfloat \<Rightarrow> synsetizer option \<Rightarrow> string \<Rightarrow> (string \<times> fsnode) list \<Rightarrow> gstate \<Rightarrow> error + gstate"
where
  "gather_images u cap syn root_path File st = Inl NotADirectoryError"
| "gather_images u cap syn root_path (Dir es) st = gather_entries u cap syn root_path es st"
| "gather_entries u cap syn root_path [] st = Inr st"
| "gather_entries u cap syn root_path ((s0, node) # es) st =
     (if prefix ''.'' s0 \<or> prefix ''$'' s0 then gather_entries u cap syn root_path es st
      else if is_dir node then
        (case gather_images u cap syn (join root_path s0) node st of
           Inl e \<Rightarrow> Inl e
         | Inr st' \<Rightarrow> gather_entries u cap syn root_path es st')
      else
        (case gather_file u cap syn (join root_path s0) st of
           Inl e \<Rightarrow> Inl e
         | Inr st' \<Rightarrow> gather_entries u cap syn root_path es st'))"


subsection \<open>Boxes and parsed annotation files\<close>

text \<open>A box \<^verbatim>\<open>{'class': label, 'rect': rect}\<close>.\<close>

record box =
  cls :: label
  rect :: "int list"

text \<open>
  What \<^verbatim>\<open>json.load\<close> returns for a COCO file, reduced to the keys the script reads. The
  numbers are integers: \<^verbatim>\<open>int(ann['image_id'])\<close> and \<^verbatim>\<open>int(ann['category_id'])\<close> are then
  the identity.
\<close>

record coco_ann =
  image_id :: int
  category_id :: int
  bbox :: "int list"

record coco_cat =
  cat_id :: int
  cat_name :: string
  supercategory :: string

record coco_content =
  coco_annotations :: "coco_ann list"
  coco_categories :: "coco_cat list"

text \<open>
  An \<^verbatim>\<open>object\<close> element of a VOC file, as the values of the expressions that
  \<^verbatim>\<open>get_xml_rects\<close> evaluates on it: \<^verbatim>\<open>obj.find('name').text\<close> (\<open>None\<close> for an empty
  element), \<^verbatim>\<open>int(obj.find('difficult').text)\<close>, and for each \<^verbatim>\<open>bndbox\<close> the list
  \<^verbatim>\<open>[int(bndbox.find(k).text) for k in ['xmin', 'ymin', 'xmax', 'ymax']]\<close>. Each may raise.
\<close>

record xml_object =
  obj_name :: "error + string option"
  obj_difficult :: "error + int"
  obj_bndboxes :: "(error + int list) list"

subsection \<open>The operating system and the parsers\<close>

text \<open>
  \<^verbatim>\<open>listarchive\<close> and \<^verbatim>\<open>get_boxes\<close> read and change the file system through the standard
  library. The library is a parameter: a record of operations on a state \<open>'fs\<close>, so that
  what is proved holds for every behaviour of the file system. An operation that raises
  returns \<open>Inl\<close>.
\<close>

record 'fs os =
  os_isdir :: "'fs \<Rightarrow> string \<Rightarrow> bool"
  os_listdir :: "'fs \<Rightarrow> string \<Rightarrow> error + string list"
  os_exists :: "'fs \<Rightarrow> string \<Rightarrow> bool"
  os_makedirs :: "'fs \<Rightarrow> string \<Rightarrow> error + 'fs"
  os_remove :: "'fs \<Rightarrow> string \<Rightarrow> error + 'fs"
  os_getcwd :: "'fs \<Rightarrow> string"
  os_relpath :: "string \<Rightarrow> string \<Rightarrow> string"
  tar_getmembers :: "'fs \<Rightarrow> string \<Rightarrow> error + string list"
    \<comment> \<open>\<^verbatim>\<open>tarfile.open(path)\<close>, then the names of \<^verbatim>\<open>getmembers()\<close>\<close>
  tar_extractall :: "'fs \<Rightarrow> string \<Rightarrow> string \<Rightarrow> error + 'fs"
    \<comment> \<open>archive, destination\<close>
  zip_extractall :: "'fs \<Rightarrow> string \<Rightarrow> string \<Rightarrow> error + 'fs"
  read_json :: "'fs \<Rightarrow> string \<Rightarrow> error + coco_content"
  read_xml :: "'fs \<Rightarrow> string \<Rightarrow> error + xml_object list"
  json_dumps :: "box list \<Rightarrow> string"

subsection \<open>\<^verbatim>\<open>normpath\<close>, \<^verbatim>\<open>abspath\<close> and the traversal check\<close>

fun join_with :: "string \<Rightarrow> string list \<Rightarrow> string" where
  "join_with sep [] = []"
| "join_with sep [c] = c"
| "join_with sep (c # cs) = c @ sep @ join_with sep cs"

text \<open>The loop of \<^verbatim>\<open>posixpath.normpath\<close> over the components.\<close>

definition norm_step :: "bool \<Rightarrow> string list \<Rightarrow> string \<Rightarrow> string list" where
  "norm_step rooted new_comps part =
     (if part = [] \<or> part = ''.'' then new_comps
      else if part \<noteq> ''..'' \<or> (\<not> rooted \<and> new_comps = [])
              \<or> (new_comps \<noteq> [] \<and> last new_comps = ''..'')
           then new_comps @ [part]
      else if new_comps \<noteq> [] then butlast new_comps
      else new_comps)"

definition normpath :: "string \<Rightarrow> string" where
  "normpath path =
     (if path = [] then ''.''
      else
        (let initial_slashes =
               (if prefix ''/'' path
                then (if prefix ''//'' path \<and> \<not> prefix ''///'' path then 2 else 1)
                else (0::nat));
             comps = foldl (norm_step (0 < initial_slashes)) [] (split_on CHR ''/'' path);
             p = replicate initial_slashes CHR ''/'' @ join_with ''/'' comps
         in if p = [] then ''.'' else p))"

definition abspath :: "string \<Rightarrow> string \<Rightarrow> string" where
  "abspath cwd path = normpath (if prefix ''/'' path then path else join cwd path)"

text \<open>
  \<^verbatim>\<open>is_within_directory\<close>: \<^verbatim>\<open>os.path.commonprefix\<close> of two strings is their longest common
  prefix, character by character.
\<close>

definition is_within_directory :: "string \<Rightarrow> string \<Rightarrow> string \<Rightarrow> bool" where
  "is_within_directory cwd directory target =
     (let abs_directory = abspath cwd directory;
          abs_target = abspath cwd target
      in longest_common_prefix abs_directory abs_target = abs_directory)"

text \<open>The loop of \<^verbatim>\<open>safe_extract\<close>: whether some member makes it raise.\<close>

definition traversal_attempt :: "string \<Rightarrow> string \<Rightarrow> string list \<Rightarrow> bool" where
  "traversal_attempt cwd path names \<longleftrightarrow>
     (\<exists>name \<in> set names. \<not> is_within_directory cwd path (join path name))"

definition safe_extract :: "'fs os \<Rightarrow> 'fs \<Rightarrow> string \<Rightarrow> string \<Rightarrow> error + 'fs" where
  "safe_extract os fs tar path =
     (case tar_getmembers os fs tar of
        Inl e \<Rightarrow> Inl e
      | Inr names \<Rightarrow>
          if traversal_attempt (os_getcwd os fs) path names then Inl PathTraversal
          else tar_extractall os fs tar path)"

text \<open>Lines 99 to 123: the extraction of an archive with compound extension \<open>ext\<close>.\<close>

definition extract_archive :: "'fs os \<Rightarrow> string \<Rightarrow> string \<Rightarrow> string \<Rightarrow> 'fs \<Rightarrow> error + 'fs" where
  "extract_archive os ext path extracted_path fs =
     (if ext \<in> set [''.tar'', ''.tar.gz''] then safe_extract os fs path extracted_path
      else if ext \<in> set [''.zip''] then zip_extractall os fs path extracted_path
      else Inr fs)"

text \<open>
  What the specification calls a member that escapes the destination: the destination's
  components are not a leading part of the components of the member's resolved path.
\<close>

definition components :: "string \<Rightarrow> string list" where
  "components p = filter (\<lambda>c. c \<noteq> []) (split_on CHR ''/'' p)"

definition escapes :: "string \<Rightarrow> string \<Rightarrow> string \<Rightarrow> bool" where
  "escapes cwd directory name \<longleftrightarrow>
     \<not> prefix (components (abspath cwd directory))
              (components (abspath cwd (join directory name)))"

subsection \<open>\<^verbatim>\<open>listarchive\<close>\<close>

text \<open>
  \<^verbatim>\<open>while '.' in shortname: shortname, shortext = os.path.splitext(shortname); ext = shortext + ext\<close>.
  The loop does not end on a name such as \<^verbatim>\<open>.x\<close>, which \<^verbatim>\<open>splitext\<close> leaves whole; not
  returning is \<open>None\<close>.
\<close>

partial_function (option) ext_loop :: "string \<Rightarrow> string \<Rightarrow> string option" where
  "ext_loop shortname ext =
     (if CHR ''.'' \<in> set shortname
      then ext_loop (fst (splitext shortname)) (snd (splitext shortname) @ ext)
      else Some ext)"

declare ext_loop.simps [code]

text \<open>
  \<^verbatim>\<open>re.match(extension_pattern, ext, flags=re.IGNORECASE)\<close> for the three patterns in use:
  \<^verbatim>\<open>'\.\w+'\<close> (the default), \<^verbatim>\<open>'\.json'\<close> and \<^verbatim>\<open>'\.xml'\<close>. Ignoring case, \<^verbatim>\<open>re\<close> takes
  the long s (U+017F, bytes \<^verbatim>\<open>C5 BF\<close>) for an \<^verbatim>\<open>s\<close>; no other character outside ASCII
  stands for a letter of the two names.
\<close>

definition default_pattern :: "unicode \<Rightarrow> string \<Rightarrow> bool" where
  "default_pattern u ext \<longleftrightarrow>
     (let cs = utf8_chars ext in prefix [''.''] cs \<and> takeWhile (is_word u) (tl cs) \<noteq> [])"

definition json_pattern :: "string \<Rightarrow> bool" where
  "json_pattern ext \<longleftrightarrow>
     prefix ''.json'' (lower ext) \<or> prefix (''.j'' @ [CHR 0xC5, CHR 0xBF] @ ''on'') (lower ext)"

definition xml_pattern :: "string \<Rightarrow> bool" where
  "xml_pattern ext \<longleftrightarrow> prefix ''.xml'' (lower ext)"

text \<open>\<^verbatim>\<open>[s0 for s0 in sub_paths if filter_func(s0)]\<close>, where \<^verbatim>\<open>filter_func\<close> may raise.\<close>

fun filter_list :: "(string \<Rightarrow> error + bool) \<Rightarrow> string list \<Rightarrow> error + string list" where
  "filter_list f [] = Inr []"
| "filter_list f (s0 # rest) =
     (case f s0 of
        Inl e \<Rightarrow> Inl e
      | Inr b \<Rightarrow>
          (case filter_list f rest of
             Inl e \<Rightarrow> Inl e
           | Inr kept \<Rightarrow> Inr (if b then s0 # kept else kept)))"

text \<open>Lines 59 to 67: the entries to recurse into and the filter handed down.\<close>

definition select_sub_paths ::
  "(string \<Rightarrow> error + bool) option \<Rightarrow> string list
     \<Rightarrow> error + string list \<times> (string \<Rightarrow> error + bool) option" where
  "select_sub_paths filter_func sub_paths =
     (case filter_func of
        None \<Rightarrow> Inr (sub_paths, None)
      | Some f \<Rightarrow>
          (case filter_list f sub_paths of
             Inl e \<Rightarrow> Inl e
           | Inr filtered \<Rightarrow>
               if filtered \<noteq> [] then Inr (filtered, None)
               else if length sub_paths > 1 then Inr ([], filter_func)
               else Inr (sub_paths, filter_func)))"

text \<open>
  \<^verbatim>\<open>listarchive\<close> is a generator, and its two callers leave the loop over it at the first
  path that satisfies a test of the path alone. A walk therefore takes that test, \<open>stop\<close>,
  and returns the paths yielded up to there, the path at which the caller stopped (\<open>None\<close>
  when the generator was exhausted) and the file system at that moment: once the caller
  has stopped, the generator is dropped and nothing after its \<^verbatim>\<open>yield\<close> runs. With
  \<open>stop = (\<lambda>_. False)\<close> the walk is the whole enumeration. The outer \<open>None\<close> is a walk that
  does not return.
\<close>

type_synonym 'fs walk = "(error + string list \<times> string option \<times> 'fs) option"

text \<open>A \<^verbatim>\<open>for\<close> loop that forwards what a walk per item yields.\<close>

fun walk_list :: "(string \<Rightarrow> 'fs \<Rightarrow> 'fs walk) \<Rightarrow> string list \<Rightarrow> 'fs \<Rightarrow> 'fs walk" where
  "walk_list f [] fs = Some (Inr ([], None, fs))"
| "walk_list f (s0 # rest) fs =
     (case f s0 fs of
        None \<Rightarrow> None
      | Some (Inl e) \<Rightarrow> Some (Inl e)
      | Some (Inr (ys, Some found, fs')) \<Rightarrow> Some (Inr (ys, Some found, fs'))
      | Some (Inr (ys, None, fs')) \<Rightarrow>
          (case walk_list f rest fs' of
             None \<Rightarrow> None
           | Some (Inl e) \<Rightarrow> Some (Inl e)
           | Some (Inr (ys', found, fs'')) \<Rightarrow> Some (Inr (ys @ ys', found, fs''))))"

definition hidden :: "string \<Rightarrow> bool" where
  "hidden s0 \<longleftrightarrow> prefix ''.'' s0 \<or> prefix ''$'' s0"

text \<open>
  \<^verbatim>\<open>listarchive(path, is_root, extension_pattern, filter_func)\<close>. The first argument bounds
  the depth of the recursion, which follows the file system and not the structure of an
  argument.
\<close>

fun listarchive ::
  "nat \<Rightarrow> 'fs os \<Rightarrow> (string \<Rightarrow> bool) \<Rightarrow> string \<Rightarrow> bool \<Rightarrow> (string \<Rightarrow> bool)
     \<Rightarrow> (string \<Rightarrow> error + bool) option \<Rightarrow> 'fs \<Rightarrow> 'fs walk" where
  "listarchive 0 os stop path is_root extension_pattern filter_func fs = None"
| "listarchive (Suc n) os stop path is_root extension_pattern filter_func fs =
     (if os_isdir os fs path then
        (case os_listdir os fs path of
           Inl e \<Rightarrow> Some (Inl e)
         | Inr names \<Rightarrow>
             (case select_sub_paths filter_func (filter (\<lambda>s0. \<not> hidden s0) names) of
                Inl e \<Rightarrow> Some (Inl e)
              | Inr (sub_paths, new_filter_func) \<Rightarrow>
                  walk_list
                    (\<lambda>s0. listarchive n os stop (join path s0) False extension_pattern
                            new_filter_func)
                    sub_paths fs))
      else
        (let local_path = dirname path;
             fname = basename path;
             base = fst (splitext fname)
         in case ext_loop base (lower (snd (splitext fname))) of
              None \<Rightarrow> None
            | Some ext \<Rightarrow>
                if ext \<notin> set [''.tar'', ''.tar.gz'', ''.zip''] then
                  (if extension_pattern ext
                   then Some (Inr ([path], if stop path then Some path else None, fs))
                   else Some (Inr ([], None, fs)))
                else
                  (let extracted_path = join local_path (''extracted_'' @ base)
                   in if os_exists os fs extracted_path then
                        listarchive n os stop extracted_path False extension_pattern
                          filter_func fs
                      else
                        (case os_makedirs os fs extracted_path of
                           Inl e \<Rightarrow> Some (Inl e)
                         | Inr fs1 \<Rightarrow>
                             (case extract_archive os ext path extracted_path fs1 of
                                Inl e \<Rightarrow> Some (Inl e)
                              | Inr fs2 \<Rightarrow>
                                  (case listarchive n os stop extracted_path False
                                          extension_pattern filter_func fs2 of
                                     None \<Rightarrow> None
                                   | Some (Inl e) \<Rightarrow> Some (Inl e)
                                   | Some (Inr (ys, Some found, fs3)) \<Rightarrow>
                                       Some (Inr (ys, Some found, fs3))
                                   | Some (Inr (ys, None, fs3)) \<Rightarrow>
                                       if is_root then Some (Inr (ys, None, fs3))
                                       else
                                         (case os_remove os fs3 path of
                                            Inl e \<Rightarrow> Some (Inl e)
                                          | Inr fs4 \<Rightarrow> Some (Inr (ys, None, fs4)))))))))"


subsection \<open>\<^verbatim>\<open>get_coco_bboxes\<close>\<close>

text \<open>
  The dictionary comprehension over \<^verbatim>\<open>content['categories']\<close>: a later entry with the same
  \<^verbatim>\<open>id\<close> replaces an earlier one.
\<close>

definition categories_dict :: "coco_cat list \<Rightarrow> int \<Rightarrow> (string \<times> string) option" where
  "categories_dict cats = map_of (rev (map (\<lambda>c. (cat_id c, (cat_name c, supercategory c))) cats))"

text \<open>
  \<^verbatim>\<open>bbox[2] += bbox[0] - 1; bbox[3] += bbox[1] - 1\<close>; a list shorter than four raises
  \<^verbatim>\<open>IndexError\<close> in one of the two statements.
\<close>

definition bbox_rect :: "int list \<Rightarrow> error + int list" where
  "bbox_rect b =
     (if length b < 4 then Inl IndexError
      else Inr (b[2 := b ! 2 + (b ! 0 - 1), 3 := b ! 3 + (b ! 1 - 1)]))"

text \<open>The loop over \<^verbatim>\<open>annotations\<close>; \<open>bboxes\<close> is the dictionary built so far.\<close>

fun coco_loop ::
  "synsetizer option \<Rightarrow> (int \<Rightarrow> (string \<times> string) option) \<Rightarrow> coco_ann list
     \<Rightarrow> (int \<times> box list) list \<Rightarrow> error + (int \<times> box list) list" where
  "coco_loop syn_cache cats [] bboxes = Inr bboxes"
| "coco_loop syn_cache cats (ann # anns) bboxes =
     (case cats (category_id ann) of
        None \<Rightarrow> Inl KeyError
      | Some (name, parent) \<Rightarrow>
          (case syn_cache of
             None \<Rightarrow> Inl AttributeError
           | Some synset_offset \<Rightarrow>
               (case synset_offset name parent of
                  Inl e \<Rightarrow> Inl e
                | Inr lab \<Rightarrow>
                    (case bbox_rect (bbox ann) of
                       Inl e \<Rightarrow> Inl e
                     | Inr r \<Rightarrow>
                         coco_loop syn_cache cats anns
                           (case map_of bboxes (image_id ann) of
                              None \<Rightarrow>
                                AList.update (image_id ann) [\<lparr>cls = LStr lab, rect = r\<rparr>] bboxes
                            | Some bs \<Rightarrow>
                                AList.update (image_id ann)
                                  (bs @ [\<lparr>cls = LStr lab, rect = r\<rparr>]) bboxes)))))"

definition parse_coco :: "synsetizer option \<Rightarrow> coco_content \<Rightarrow> error + (int \<times> box list) list" where
  "parse_coco syn_cache content =
     coco_loop syn_cache (categories_dict (coco_categories content)) (coco_annotations content) []"

definition get_coco_bboxes ::
  "'fs os \<Rightarrow> synsetizer option \<Rightarrow> 'fs \<Rightarrow> string \<Rightarrow> error + (int \<times> box list) list" where
  "get_coco_bboxes os syn_cache fs path =
     (case read_json os fs path of
        Inl e \<Rightarrow> Inl e
      | Inr content \<Rightarrow> parse_coco syn_cache content)"

subsection \<open>\<^verbatim>\<open>get_xml_rects\<close>\<close>

text \<open>\<^verbatim>\<open>str(n)\<close> for an integer, as \<^verbatim>\<open>format\<close> prints it.\<close>

fun str_of_nat :: "nat \<Rightarrow> string" where
  "str_of_nat n =
     (if n < 10 then [digits ! n] else str_of_nat (n div 10) @ [digits ! (n mod 10)])"

declare str_of_nat.simps [simp del]

definition str_of_int :: "int \<Rightarrow> string" where
  "str_of_int i = (if i < 0 then ''-'' @ str_of_nat (nat (- i)) else str_of_nat (nat i))"

fun str_of_label :: "label \<Rightarrow> string" where
  "str_of_label (LStr s) = s"
| "str_of_label (LInt i) = str_of_int i"

text \<open>\<^verbatim>\<open>name != label\<close>: a string never equals an integer, and \<^verbatim>\<open>None\<close> equals neither.\<close>

fun name_differs :: "string option \<Rightarrow> label \<Rightarrow> bool" where
  "name_differs (Some name) (LStr s) \<longleftrightarrow> name \<noteq> s"
| "name_differs name l \<longleftrightarrow> True"

definition ignore_message :: "string option \<Rightarrow> label \<Rightarrow> string \<Rightarrow> string" where
  "ignore_message name l path =
     ''Ignore label \"'' @ (case name of Some s \<Rightarrow> s | None \<Rightarrow> ''None'') @ ''\" != ''
       @ str_of_label l @ '' in '' @ path"

definition difficult_message :: "label \<Rightarrow> string \<Rightarrow> string" where
  "difficult_message l path = ''Ignore difficult label \"'' @ str_of_label l @ ''\" in '' @ path"

fun collect_rects :: "(error + int list) list \<Rightarrow> error + int list list" where
  "collect_rects [] = Inr []"
| "collect_rects (r # rs) =
     (case r of
        Inl e \<Rightarrow> Inl e
      | Inr v \<Rightarrow> (case collect_rects rs of Inl e \<Rightarrow> Inl e | Inr vs \<Rightarrow> Inr (v # vs)))"

text \<open>The loop over the \<^verbatim>\<open>object\<close> elements: the rects and the lines printed.\<close>

fun xml_loop :: "string \<Rightarrow> label \<Rightarrow> xml_object list \<Rightarrow> error + int list list \<times> string list" where
  "xml_loop path l [] = Inr ([], [])"
| "xml_loop path l (obj # objs) =
     (case obj_name obj of
        Inl e \<Rightarrow> Inl e
      | Inr name \<Rightarrow>
          if name_differs name l then
            (case xml_loop path l objs of
               Inl e \<Rightarrow> Inl e
             | Inr (rects, printed) \<Rightarrow> Inr (rects, ignore_message name l path # printed))
          else
            (case obj_difficult obj of
               Inl e \<Rightarrow> Inl e
             | Inr diff \<Rightarrow>
                 if diff \<noteq> 0 then
                   (case xml_loop path l objs of
                      Inl e \<Rightarrow> Inl e
                    | Inr (rects, printed) \<Rightarrow> Inr (rects, difficult_message l path # printed))
                 else
                   (case collect_rects (obj_bndboxes obj) of
                      Inl e \<Rightarrow> Inl e
                    | Inr rs \<Rightarrow>
                        (case xml_loop path l objs of
                           Inl e \<Rightarrow> Inl e
                         | Inr (rects, printed) \<Rightarrow> Inr (rs @ rects, printed)))))"

definition get_xml_rects ::
  "'fs os \<Rightarrow> 'fs \<Rightarrow> string \<Rightarrow> label \<Rightarrow> error + int list list \<times> string list" where
  "get_xml_rects os fs path l =
     (case read_xml os fs path of
        Inl e \<Rightarrow> Inl e
      | Inr objs \<Rightarrow> xml_loop path l objs)"

subsection \<open>\<^verbatim>\<open>get_boxes\<close>\<close>

text \<open>The tests at which the two loops over \<^verbatim>\<open>listarchive\<close> return.\<close>

definition coco_stop :: "string \<Rightarrow> string \<Rightarrow> bool" where
  "coco_stop phase path \<longleftrightarrow>
     (let fname = basename path in str_in ''instances'' fname \<and> str_in phase fname)"

definition voc_stop :: "string \<Rightarrow> string \<Rightarrow> bool" where
  "voc_stop full_label path \<longleftrightarrow> prefix full_label (basename path)"

text \<open>
  \<^verbatim>\<open>voc_ann_filter\<close>: \<^verbatim>\<open>label in elem\<close> with an integer on the left of a string raises
  \<^verbatim>\<open>TypeError\<close>.
\<close>

fun voc_ann_filter :: "label \<Rightarrow> string \<Rightarrow> error + bool" where
  "voc_ann_filter (LStr s) elem = Inr (str_in s elem)"
| "voc_ann_filter (LInt i) elem = Inl TypeError"

text \<open>\<^verbatim>\<open>phase_cache\<close>: from the name of a COCO file to its parsed boxes per image id.\<close>

type_synonym phase_cache = "(string \<times> (int \<times> box list) list) list"

text \<open>\<^verbatim>\<open>label not in phase_cache[fname]\<close> and \<^verbatim>\<open>phase_cache[fname][label]\<close>; the keys are integers.\<close>

fun cache_lookup :: "(int \<times> box list) list \<Rightarrow> label \<Rightarrow> box list option" where
  "cache_lookup bboxes (LInt i) = map_of bboxes i"
| "cache_lookup bboxes (LStr s) = None"

text \<open>
  What \<^verbatim>\<open>get_boxes\<close> returns: the boxes, with the cache and the file system as it leaves
  them and the lines printed.
\<close>

type_synonym 'fs boxes_result = "(error + box list \<times> phase_cache \<times> 'fs \<times> string list) option"

text \<open>
  The two nested loops, lines 294 to 297 and lines 309 to 312: the walk over the sources
  up to the first path at which the loop returns.
\<close>

definition coco_search :: "nat \<Rightarrow> 'fs os \<Rightarrow> string \<Rightarrow> string list \<Rightarrow> 'fs \<Rightarrow> 'fs walk" where
  "coco_search fuel os phase sources fs =
     walk_list
       (\<lambda>ann_path. listarchive fuel os (coco_stop phase) ann_path True json_pattern None)
       sources fs"

definition voc_search ::
  "nat \<Rightarrow> 'fs os \<Rightarrow> string \<Rightarrow> label \<Rightarrow> string list \<Rightarrow> 'fs \<Rightarrow> 'fs walk" where
  "voc_search fuel os full_label l sources fs =
     walk_list
       (\<lambda>ann_path. listarchive fuel os (voc_stop full_label) ann_path True xml_pattern
                     (Some (voc_ann_filter l)))
       sources fs"

text \<open>Lines 305 to 316: the search of the VOC files and the fallback box.\<close>

definition voc_boxes ::
  "nat \<Rightarrow> 'fs os \<Rightarrow> string \<Rightarrow> label \<Rightarrow> string list \<Rightarrow> phase_cache \<Rightarrow> 'fs \<Rightarrow> 'fs boxes_result" where
  "voc_boxes fuel os full_label l sources cache fs =
     (case voc_search fuel os full_label l sources fs of
        None \<Rightarrow> None
      | Some (Inl e) \<Rightarrow> Some (Inl e)
      | Some (Inr (ys, Some path, fs1)) \<Rightarrow>
          (case get_xml_rects os fs1 path l of
             Inl e \<Rightarrow> Some (Inl e)
           | Inr (rects, printed) \<Rightarrow>
               Some (Inr (map (\<lambda>r. \<lparr>cls = l, rect = r\<rparr>) rects, cache, fs1, printed)))
      | Some (Inr (ys, None, fs1)) \<Rightarrow>
          Some (Inr ([\<lparr>cls = l, rect = [0, 0, 0, 0]\<rparr>], cache, fs1, [])))"

text \<open>Lines 298 to 303, at the first file the COCO loop stops at.\<close>

definition coco_boxes ::
  "'fs os \<Rightarrow> synsetizer option \<Rightarrow> label \<Rightarrow> string \<Rightarrow> phase_cache \<Rightarrow> 'fs \<Rightarrow> 'fs boxes_result" where
  "coco_boxes os syn_cache l path cache fs =
     (let fname = basename path
      in case (case map_of cache fname of
                 Some bboxes \<Rightarrow> Inr cache
               | None \<Rightarrow>
                   (case get_coco_bboxes os syn_cache fs path of
                      Inl e \<Rightarrow> Inl e
                    | Inr bboxes \<Rightarrow> Inr (AList.update fname bboxes cache))) of
           Inl e \<Rightarrow> Some (Inl e)
         | Inr cache1 \<Rightarrow>
             (case map_of cache1 fname of
                None \<Rightarrow> Some (Inl KeyError)
              | Some bboxes \<Rightarrow>
                  (case cache_lookup bboxes l of
                     None \<Rightarrow> Some (Inr ([], cache1, fs, []))
                   | Some boxes \<Rightarrow> Some (Inr (boxes, cache1, fs, [])))))"

text \<open>\<^verbatim>\<open>get_boxes(phase, full_label, label, meta, annotations, phase_cache)\<close>\<close>

definition get_boxes ::
  "nat \<Rightarrow> 'fs os \<Rightarrow> synsetizer option \<Rightarrow> string \<Rightarrow> string \<Rightarrow> label \<Rightarrow> string \<Rightarrow> string list
     \<Rightarrow> phase_cache \<Rightarrow> 'fs \<Rightarrow> 'fs boxes_result" where
  "get_boxes fuel os syn_cache phase full_label l meta sources cache fs =
     (if prefix ''COCO_'' meta then
        (case syn_cache of
           None \<Rightarrow> Some (Inl WordnetNotFound)
         | Some synset_offset \<Rightarrow>
             (case coco_search fuel os phase sources fs of
                None \<Rightarrow> None
              | Some (Inl e) \<Rightarrow> Some (Inl e)
              | Some (Inr (ys, Some path, fs1)) \<Rightarrow> coco_boxes os syn_cache l path cache fs1
              | Some (Inr (ys, None, fs1)) \<Rightarrow> voc_boxes fuel os full_label l sources cache fs1))
      else voc_boxes fuel os full_label l sources cache fs)"

subsection \<open>The loop of \<^verbatim>\<open>main\<close> over the images of a phase\<close>

text \<open>
  The two output files of a phase as the text written so far, the standard output, the
  cache of the phase and the file system. \<^verbatim>\<open>tsv_file.tell()\<close> is the length of the text
  written.
\<close>

record 'fs emitter =
  tsv_file :: string
  idx_file :: string
  console :: "string list"
  memo :: phase_cache
  disk :: "'fs"

text \<open>Lines 356 to 363: the body of the loop for one image.\<close>

definition emit_image ::
  "nat \<Rightarrow> 'fs os \<Rightarrow> synsetizer option \<Rightarrow> string \<Rightarrow> string list \<Rightarrow> string \<Rightarrow> image
     \<Rightarrow> 'fs emitter \<Rightarrow> (error + 'fs emitter) option" where
  "emit_image fuel os syn_cache root_path sources phase v st =
     (case v of (path, l, full_label, meta) \<Rightarrow>
        (let relpath = map (\<lambda>c. if c = CHR 0x5C then CHR ''/'' else c) (os_relpath os path root_path)
         in case get_boxes fuel os syn_cache phase full_label l meta sources (memo st) (disk st) of
              None \<Rightarrow> None
            | Some (Inl e) \<Rightarrow> Some (Inl e)
            | Some (Inr (boxes, cache1, fs1, lines)) \<Rightarrow>
                if boxes = [] then
                  Some (Inr (st\<lparr>console := console st @ lines @ [''No annotation for '' @ path],
                                memo := cache1, disk := fs1\<rparr>))
                else
                  Some (Inr (st\<lparr>idx_file := idx_file st @ str_of_nat (length (tsv_file st)) @ [CHR 0x0A],
                                tsv_file := tsv_file st @ full_label @ [CHR 0x09] @ json_dumps os boxes
                                              @ [CHR 0x09] @ relpath @ [CHR 0x0A],
                                console := console st @ lines,
                                memo := cache1, disk := fs1\<rparr>))))"

fun emit_images ::
  "nat \<Rightarrow> 'fs os \<Rightarrow> synsetizer option \<Rightarrow> string \<Rightarrow> string list \<Rightarrow> string \<Rightarrow> image list
     \<Rightarrow> 'fs emitter \<Rightarrow> (error + 'fs emitter) option" where
  "emit_images fuel os syn_cache root_path sources phase [] st = Some (Inr st)"
| "emit_images fuel os syn_cache root_path sources phase (v # vs) st =
     (case emit_image fuel os syn_cache root_path sources phase v st of
        None \<Rightarrow> None
      | Some (Inl e) \<Rightarrow> Some (Inl e)
      | Some (Inr st') \<Rightarrow> emit_images fuel os syn_cache root_path sources phase vs st')"

subsection \<open>The conversion the specification asks of \<^verbatim>\<open>get_coco_bboxes\<close>\<close>

text \<open>
  \<^verbatim>\<open>[x, y, w, h]\<close> becomes \<^verbatim>\<open>[x, y, x+w-1, y+h-1]\<close>; what follows the fourth number is
  kept.
\<close>

definition to_rect :: "int list \<Rightarrow> int list" where
  "to_rect b =
     (case b of
        x # y # w # h # rest \<Rightarrow> x # y # (x + w - 1) # (y + h - 1) # rest
      | _ \<Rightarrow> b)"

text \<open>The boxes stored for an image id, none when the id is no key.\<close>

definition boxes_at :: "(int \<times> box list) list \<Rightarrow> int \<Rightarrow> box list" where
  "boxes_at bboxes i = (case map_of bboxes i of None \<Rightarrow> [] | Some bs \<Rightarrow> bs)"


subsection \<open>The order in which \<^verbatim>\<open>gather_images\<close> meets the files\<close>

text \<open>
  The paths \<^verbatim>\<open>s0\<close> of the entries that are not directories, in the order in which the
  recursion of \<^verbatim>\<open>gather_images\<close> reaches them: depth first, hidden entries left out.
\<close>

fun files_of :: "string \<Rightarrow> fsnode \<Rightarrow> string list"
  and entry_files :: "string \<Rightarrow> (string \<times> fsnode) list \<Rightarrow> string list"
where
  "files_of root_path File = []"
| "files_of root_path (Dir es) = entry_files root_path es"
| "entry_files root_path [] = []"
| "entry_files root_path ((s0, node) # es) =
     (if prefix ''.'' s0 \<or> prefix ''$'' s0 then entry_files root_path es
      else if is_dir node then files_of (join root_path s0) node @ entry_files root_path es
      else join root_path s0 # entry_files root_path es)"

text \<open>The loop body run over a sequence of files, stopping at the first exception.\<close>

fun gather_files :: "unicode \<Rightarrow> pyfloat \<Rightarrow> synsetizer option \<Rightarrow> string list \<Rightarrow> gstate \<Rightarrow> error + gstate" where
  "gather_files u cap syn [] st = Inr st"
| "gather_files u cap syn (s0 # fs) st =
     (case gather_file u cap syn s0 st of
        Inl e \<Rightarrow> Inl e
      | Inr st' \<Rightarrow> gather_files u cap syn fs st')"

text \<open>
  The images among a sequence of files, each with the label that \<^verbatim>\<open>guess_label\<close> gives
  it: the sightings, in encounter order.
\<close>

definition sighting :: "unicode \<Rightarrow> synsetizer option \<Rightarrow> string \<Rightarrow> image list" where
  "sighting u syn s0 =
     (if lower (snd (splitext s0)) \<in> set valid_extensions
      then (case guess_label u syn s0 of Inl e \<Rightarrow> [] | Inr lfm \<Rightarrow> [(s0, lfm)])
      else [])"

definition sightings :: "unicode \<Rightarrow> synsetizer option \<Rightarrow> string list \<Rightarrow> image list" where
  "sightings u syn fs = concat (map (sighting u syn) fs)"

definition image_label :: "image \<Rightarrow> label" where
  "image_label img = fst (snd img)"

definition with_label :: "label \<Rightarrow> image list \<Rightarrow> image list" where
  "with_label l imgs = filter (\<lambda>img. image_label img = l) imgs"

text \<open>Every image kept, whatever its phase.\<close>

definition all_images :: "gstate \<Rightarrow> image list" where
  "all_images st = concat (map snd (imagedata st))"

subsection \<open>Notions used in the statements\<close>

text \<open>
  After the sightings \<open>imgs\<close> with cap \<open>c\<close>: per label, the counter is the number of
  sightings cut at the cap, the images kept are the first \<open>c\<close> sightings, and every
  bucket holds them in encounter order.
\<close>

definition cap_inv :: "nat \<Rightarrow> image list \<Rightarrow> gstate \<Rightarrow> bool" where
  "cap_inv c imgs st \<longleftrightarrow>
     (\<forall>l. map_of (counts st) l =
             (if with_label l imgs = [] then None
              else Some (int (min (length (with_label l imgs)) c)))
        \<and> mset (with_label l (all_images st)) = mset (take c (with_label l imgs))
        \<and> (\<forall>(p, b) \<in> set (imagedata st). subseq (with_label l b) (take c (with_label l imgs))))"

text \<open>Every phase observed so far contains one of \<^verbatim>\<open>_valid_phases\<close>.\<close>

definition phase_keys_ok :: "gstate \<Rightarrow> bool" where
  "phase_keys_ok st \<longleftrightarrow> (\<forall>p \<in> fst ` set (imagedata st). has_phase_name p)"

text \<open>The counter of a label is the number of its images kept, over all phases.\<close>

definition count_inv :: "gstate \<Rightarrow> bool" where
  "count_inv st \<longleftrightarrow>
     (\<forall>l. map_of (counts st) l =
            (if with_label l (all_images st) = [] then None
             else Some (int (length (with_label l (all_images st))))))"

subsection \<open>What \<^verbatim>\<open>listarchive\<close> is to enumerate\<close>








subsection \<open>Example inputs\<close>

text \<open>
  A part of the Unicode database: the Arabic-Indic digits U+0660 to U+0669, decimal digits
  and word characters with the values 0 to 9.
\<close>

definition arabic_indic :: "string list" where
  "arabic_indic =
     map (\<lambda>b. [CHR 0xD9, b])
       [CHR 0xA0, CHR 0xA1, CHR 0xA2, CHR 0xA3, CHR 0xA4, CHR 0xA5, CHR 0xA6, CHR 0xA7, CHR 0xA8, CHR 0xA9]"

definition sample_unicode :: unicode where
  "sample_unicode =
     \<lparr>uni_digit = (\<lambda>c. c \<in> set arabic_indic),
      uni_word = (\<lambda>c. c \<in> set arabic_indic),
      uni_value = (\<lambda>c. int (length (takeWhile (\<lambda>d. d \<noteq> c) arabic_indic)))\<rparr>"

text \<open>A dataset with five images of one label, and one with a label in three directories.\<close>

definition five_images :: "(string \<times> fsnode) list" where
  "five_images =
     [(''train'', Dir [(''n00000001_1.jpg'', File), (''n00000001_2.jpg'', File),
                       (''n00000001_3.jpg'', File), (''n00000001_4.jpg'', File),
                       (''n00000001_5.jpg'', File)])]"

definition three_dirs :: "(string \<times> fsnode) list" where
  "three_dirs =
     [(''train'', Dir [(''n00000001_1.jpg'', File), (''n00000001_2.jpg'', File)]),
      (''misc'', Dir [(''n00000002_7.png'', File)]),
      (''val'', Dir [(''n00000001_3.jpg'', File), (''n00000001_4.jpg'', File)])]"

definition three_dirs_result :: gstate where
  "three_dirs_result =
     \<lparr>imagedata =
        [(''train'',
          [(''/r/train/n00000001_1.jpg'', LStr ''n00000001'', ''n00000001_1'', ''IN_''),
           (''/r/train/n00000001_2.jpg'', LStr ''n00000001'', ''n00000001_2'', ''IN_''),
           (''/r/misc/n00000002_7.png'', LStr ''n00000002'', ''n00000002_7'', ''IN_'')]),
         (''val'',
          [(''/r/val/n00000001_3.jpg'', LStr ''n00000001'', ''n00000001_3'', ''IN_'')])],
      counts = [(LStr ''n00000001'', 3), (LStr ''n00000002'', 1)],
      stdout = [''Phase train was assumed when processing /r/misc/n00000002_7.png'']\<rparr>"

text \<open>
  A file system without archives: a table from paths to directories (with the names of
  their entries), parsed COCO files, parsed VOC files and other files. Nothing is ever
  extracted, so the operations that write fail.
\<close>

datatype plain_node =
    PDir "string list"
  | PJson coco_content
  | PXml "xml_object list"
  | POther

type_synonym plain_fs = "(string \<times> plain_node) list"

definition plain_os :: "plain_fs os" where
  "plain_os =
     \<lparr>os_isdir = (\<lambda>fs p. case map_of fs p of Some (PDir ns) \<Rightarrow> True | _ \<Rightarrow> False),
      os_listdir = (\<lambda>fs p. case map_of fs p of Some (PDir ns) \<Rightarrow> Inr ns
                                | _ \<Rightarrow> Inl (External ''NotADirectoryError'')),
      os_exists = (\<lambda>fs p. case map_of fs p of Some n \<Rightarrow> True | None \<Rightarrow> False),
      os_makedirs = (\<lambda>fs p. Inl (External ''PermissionError'')),
      os_remove = (\<lambda>fs p. Inl (External ''PermissionError'')),
      os_getcwd = (\<lambda>fs. ''/''),
      os_relpath = (\<lambda>p start. drop (Suc (length start)) p),
      tar_getmembers = (\<lambda>fs p. Inl (External ''ReadError'')),
      tar_extractall = (\<lambda>fs p d. Inl (External ''ReadError'')),
      zip_extractall = (\<lambda>fs p d. Inl (External ''BadZipFile'')),
      read_json = (\<lambda>fs p. case map_of fs p of Some (PJson c) \<Rightarrow> Inr c
                               | _ \<Rightarrow> Inl (External ''JSONDecodeError'')),
      read_xml = (\<lambda>fs p. case map_of fs p of Some (PXml objs) \<Rightarrow> Inr objs
                              | _ \<Rightarrow> Inl (External ''ParseError'')),
      json_dumps = (\<lambda>boxes. ''[...]'')\<rparr>"

definition one_annotation :: coco_content where
  "one_annotation =
     \<lparr>coco_annotations = [\<lparr>image_id = 42, category_id = 1, bbox = [10, 20, 30, 40]\<rparr>],
      coco_categories = [\<lparr>cat_id = 1, cat_name = ''person'', supercategory = ''person''\<rparr>]\<rparr>"

definition coco_fs :: plain_fs where
  "coco_fs =
     [(''/ann'', PDir [''instances_train2014.json'', ''captions_train2014.json'']),
      (''/ann/instances_train2014.json'', PJson one_annotation),
      (''/ann/captions_train2014.json'', POther)]"




definition xml_fs :: plain_fs where
  "xml_fs =
     [(''/x/000000000042.xml'',
       PXml [\<lparr>obj_name = Inr (Some ''person''), obj_difficult = Inr 0,
               obj_bndboxes = [Inr [1, 2, 3, 4]]\<rparr>])]"

definition demo_syn :: synsetizer where
  "demo_syn term hint = Inr ''n00007846''"


section \<open>Label resolution\<close>

lemma synset_loop_None: "synset_loop u elems = None \<longleftrightarrow> (\<forall>elem \<in> set elems. synset_match u elem = None)"
proof (induction elems)
  case Nil
  then show ?case by simp
next
  case (Cons elem elems)
  have e: "synset_match u [] = None" by (simp add: synset_match_def)
  show ?case using Cons e
    by (auto split: option.splits prod.splits)
qed

text \<open>
  What the first loop of \<^verbatim>\<open>guess_label\<close> gives when the last component of the path is the
  one that matches: the triple of the claim when the extension is there, \<^verbatim>\<open>TypeError\<close> when
  it is missing.
\<close>

lemma guess_label_last_component:
  assumes "rev (path_elems path) = elem # elems" and "elem \<noteq> []"
    and "synset_match u elem = Some (lab, ext, meta)"
  shows "guess_label u syn path =
           (case ext of
              None \<Rightarrow> Inl TypeError
            | Some e \<Rightarrow> Inr (LStr lab, lab @ e, ''IN_'' @ (case meta of Some m \<Rightarrow> m | None \<Rightarrow> [])))"
  using assms by (auto simp: guess_label_def split: option.splits)

text \<open>
  C1. The claim: when a component matches the synset pattern, \<^verbatim>\<open>full_label\<close> is the label
  followed by the extension, and the label alone when the extension is missing. On the
  path of the docstring of \<^verbatim>\<open>gather_images\<close>, whose component \<^verbatim>\<open>n04422727\<close> matches without
  an extension, \<^verbatim>\<open>guess_label\<close> raises \<^verbatim>\<open>TypeError\<close> instead, whatever the synset service.
\<close>

theorem guess_label_missing_ext:
  "guess_label u syn ''/root_path/training/n04422727/blue_cheese.jpg'' = Inl TypeError"
  by code_simp

text \<open>
  C9. For every path with a component that matches the synset pattern, the outcome of
  \<^verbatim>\<open>guess_label\<close> is the same for any two synset services, an absent one included: the
  service is not consulted. The pattern is the one of the source with the character
  classes of \<^verbatim>\<open>re\<close>, whatever the Unicode database says of the characters outside ASCII.
\<close>

theorem guess_label_independent:
  assumes "\<exists>elem \<in> set (path_elems path). synset_match u elem \<noteq> None"
  shows "guess_label u syn1 path = guess_label u syn2 path"
proof -
  from assms have "synset_loop u (rev (path_elems path)) \<noteq> None"
    by (simp add: synset_loop_None)
  then obtain r where "synset_loop u (rev (path_elems path)) = Some r" by blast
  then show ?thesis by (simp add: guess_label_def)
qed

text \<open>
  An instance: a file whose name holds a digit outside ASCII, U+0667 (bytes \<^verbatim>\<open>D9 A7\<close>),
  as the eighth digit of the label. The label is found and the service is not asked.
\<close>

theorem guess_label_independent_witness:
  "(\<exists>elem \<in> set (path_elems (''/root_path/training/n0442272'' @ [CHR 0xD9, CHR 0xA7] @ ''_43.jpg'')).
      synset_match sample_unicode elem \<noteq> None)
   \<and> guess_label sample_unicode None
        (''/root_path/training/n0442272'' @ [CHR 0xD9, CHR 0xA7] @ ''_43.jpg'')
     = guess_label sample_unicode (Some (\<lambda>t h. Inr ''n00000000''))
        (''/root_path/training/n0442272'' @ [CHR 0xD9, CHR 0xA7] @ ''_43.jpg'')
   \<and> guess_label sample_unicode None
        (''/root_path/training/n0442272'' @ [CHR 0xD9, CHR 0xA7] @ ''_43.jpg'')
     = Inr (LStr (''n0442272'' @ [CHR 0xD9, CHR 0xA7]),
            ''n0442272'' @ [CHR 0xD9, CHR 0xA7] @ ''_43'', ''IN_'')"
proof -
  have h: "\<exists>elem \<in> set (path_elems (''/root_path/training/n0442272'' @ [CHR 0xD9, CHR 0xA7] @ ''_43.jpg'')).
             synset_match sample_unicode elem \<noteq> None"
    by code_simp
  have v: "guess_label sample_unicode None
             (''/root_path/training/n0442272'' @ [CHR 0xD9, CHR 0xA7] @ ''_43.jpg'')
           = Inr (LStr (''n0442272'' @ [CHR 0xD9, CHR 0xA7]),
                  ''n0442272'' @ [CHR 0xD9, CHR 0xA7] @ ''_43'', ''IN_'')"
    by code_simp
  from guess_label_independent [OF h, where ?syn1.0 = None and ?syn2.0 = "Some (\<lambda>t h. Inr ''n00000000'')"] h v
  show ?thesis by blast
qed

section \<open>Gathering\<close>

lemma gather_files_append:
  "gather_files u cap syn (xs @ ys) st =
     (case gather_files u cap syn xs st of Inl e \<Rightarrow> Inl e | Inr st' \<Rightarrow> gather_files u cap syn ys st')"
  by (induction xs arbitrary: st) (auto split: sum.splits)

lemma gather_as_files:
  "is_dir node \<Longrightarrow> gather_images u cap syn p node st = gather_files u cap syn (files_of p node) st"
  "gather_entries u cap syn p es st = gather_files u cap syn (entry_files p es) st"
proof (induction u cap syn p node st and u cap syn p es st rule: gather_images_gather_entries.induct)
  case (1 u cap syn root_path st)
  then show ?case by simp
next
  case (2 u cap syn root_path es st)
  then show ?case by simp
next
  case (3 u cap syn root_path st)
  then show ?case by simp
next
  case (4 u cap syn root_path s0 node es st)
  show ?case
  proof (cases "prefix ''.'' s0 \<or> prefix ''$'' s0")
    case True
    then show ?thesis using 4 by simp
  next
    case nh: False
    show ?thesis
    proof (cases "is_dir node")
      case True
      then show ?thesis using nh 4
        by (auto simp: gather_files_append split: sum.splits)
    next
      case False
      then show ?thesis using nh 4
        by (auto split: sum.splits)
    qed
  qed
qed

lemma update_absent: "map_of d k = None \<Longrightarrow> AList.update k v d = d @ [(k, v)]"
  by (induction d) (auto split: if_splits)

lemma update_present:
  "map_of d k = Some w \<Longrightarrow> \<exists>d1 d2. d = d1 @ (k, w) # d2 \<and> AList.update k v d = d1 @ (k, v) # d2"
proof (induction d)
  case Nil
  then show ?case by simp
next
  case (Cons a d)
  show ?case
  proof (cases "fst a = k")
    case True
    with Cons.prems have "a = (k, w)" by (cases a) auto
    then have "a # d = [] @ (k, w) # d \<and> AList.update k v (a # d) = [] @ (k, v) # d" by simp
    then show ?thesis by blast
  next
    case False
    with Cons obtain d1 d2 where "d = d1 @ (k, w) # d2" "AList.update k v d = d1 @ (k, v) # d2"
      by (cases a) auto
    with False have "a # d = (a # d1) @ (k, w) # d2 \<and> AList.update k v (a # d) = (a # d1) @ (k, v) # d2"
      by (cases a) auto
    then show ?thesis by blast
  qed
qed

lemma add_image_cases:
  "(\<exists>d1 b d2. d = d1 @ (p, b) # d2 \<and> add_image p x d = d1 @ (p, b @ [x]) # d2)
   \<or> (p \<notin> fst ` set d \<and> add_image p x d = d @ [(p, [x])])"
proof (cases "map_of d p")
  case None
  then have "p \<notin> fst ` set d" by (simp add: map_of_eq_None_iff)
  moreover from None have "add_image p x d = d @ [(p, [x])]"
    by (simp add: add_image_def update_absent)
  ultimately show ?thesis by blast
next
  case (Some b)
  from update_present [OF Some, of "b @ [x]"] Some show ?thesis
    by (auto simp: add_image_def)
qed

lemma with_label_append [simp]: "with_label l (xs @ ys) = with_label l xs @ with_label l ys"
  by (simp add: with_label_def)

lemma with_label_Nil [simp]: "with_label l [] = []"
  by (simp add: with_label_def)

lemma with_label_single: "with_label l [x] = (if image_label x = l then [x] else [])"
  by (simp add: with_label_def)

lemma with_label_concat: "with_label l (concat bs) = concat (map (with_label l) bs)"
  by (induction bs) (simp_all add: with_label_append)

lemma keep_image_counts [simp]: "counts (keep_image s0 lfm st) = counts st"
  by (simp add: keep_image_def Let_def)

lemma keep_image_imagedata:
  "\<exists>p. imagedata (keep_image s0 lfm st) = add_image p (s0, lfm) (imagedata st)"
  by (auto simp: keep_image_def Let_def)

lemma add_image_all:
  "mset (with_label l (concat (map snd (add_image p x d))))
     = mset (with_label l (concat (map snd d))) + mset (with_label l [x])"
  using add_image_cases [of d p x] by (auto simp: with_label_concat)

lemma add_image_bucket:
  assumes "(q, b) \<in> set (add_image p x d)"
  shows "(q, b) \<in> set d \<or> b = [x] \<or> (\<exists>b0. (q, b0) \<in> set d \<and> b = b0 @ [x])"
  using add_image_cases [of d p x] assms by auto

lemma cap_inv_init: "cap_inv c [] init_state"
  by (simp add: cap_inv_def init_state_def all_images_def)

lemma cap_inv_drop:
  assumes inv: "cap_inv c imgs st" and c: "1 \<le> c"
    and lab: "image_label x = l0"
    and cnt: "map_of (counts st) l0 = Some k" and full: "real c \<le> of_int k"
  shows "cap_inv c (imgs @ [x]) st"
proof -
  from inv cnt have ne: "with_label l0 imgs \<noteq> []" and k: "k = int (min (length (with_label l0 imgs)) c)"
    by (auto simp: cap_inv_def split: if_splits)
  from full k have "c \<le> length (with_label l0 imgs)" by (simp add: min_def split: if_splits)
  then have tk: "take c (with_label l0 imgs @ [x]) = take c (with_label l0 imgs)" by simp
  have wl: "\<And>l. with_label l [x] = (if l = l0 then [x] else [])"
    using lab by (auto simp: with_label_single)
  have "\<And>l. take c (with_label l (imgs @ [x])) = take c (with_label l imgs)"
    using tk by (simp add: wl)
  moreover have "\<And>l. (with_label l (imgs @ [x]) = []) = (with_label l imgs = [])"
    using ne by (simp add: wl)
  moreover have "\<And>l. min (length (with_label l (imgs @ [x]))) c = min (length (with_label l imgs)) c"
    using \<open>c \<le> length (with_label l0 imgs)\<close> by (simp add: wl)
  ultimately show ?thesis using inv
    unfolding cap_inv_def by (simp del: with_label_append)
qed

lemma cap_inv_keep:
  assumes inv: "cap_inv c imgs st" and c: "1 \<le> c"
    and x: "x = (s0, l0, f, m)"
    and room: "length (with_label l0 imgs) < c \<or> with_label l0 imgs = []"
    and st': "st' = keep_image s0 (l0, f, m)
                (st\<lparr>counts := AList.update l0 (int (Suc (length (with_label l0 imgs)))) (counts st)\<rparr>)"
  shows "cap_inv c (imgs @ [x]) st'"
proof -
  from room c have lt: "length (with_label l0 imgs) < c" by auto
  have lab: "image_label x = l0" by (simp add: x image_label_def)
  have "\<exists>p. imagedata st' = add_image p x (imagedata st)"
    using keep_image_imagedata [of s0 "(l0, f, m)"
        "st\<lparr>counts := AList.update l0 (int (Suc (length (with_label l0 imgs)))) (counts st)\<rparr>"]
    unfolding st' x by simp
  then obtain p where img: "imagedata st' = add_image p x (imagedata st)" ..
  have cnt: "counts st' = AList.update l0 (int (Suc (length (with_label l0 imgs)))) (counts st)"
    by (simp add: st')
  show ?thesis unfolding cap_inv_def
  proof (intro allI conjI)
    fix l
    show "map_of (counts st') l =
            (if with_label l (imgs @ [x]) = [] then None
             else Some (int (min (length (with_label l (imgs @ [x]))) c)))"
      using inv lt lab by (auto simp: cnt update_conv' cap_inv_def with_label_single)
    show "mset (with_label l (all_images st')) = mset (take c (with_label l (imgs @ [x])))"
    proof -
      have "mset (with_label l (all_images st')) = mset (with_label l (all_images st)) + mset (with_label l [x])"
        by (simp add: all_images_def img add_image_all)
      also have "\<dots> = mset (take c (with_label l imgs)) + mset (with_label l [x])"
        using inv by (simp add: cap_inv_def)
      also have "\<dots> = mset (take c (with_label l (imgs @ [x])))"
        using lt lab by (auto simp: with_label_single)
      finally show ?thesis .
    qed
    show "\<forall>(q, b) \<in> set (imagedata st'). subseq (with_label l b) (take c (with_label l (imgs @ [x])))"
    proof (clarify)
      fix q b
      assume "(q, b) \<in> set (imagedata st')"
      then consider "(q, b) \<in> set (imagedata st)" | "b = [x]"
        | b0 where "(q, b0) \<in> set (imagedata st)" "b = b0 @ [x]"
        using add_image_bucket [of q b p x "imagedata st"] by (auto simp: img)
      then show "subseq (with_label l b) (take c (with_label l (imgs @ [x])))"
      proof cases
        case 1
        with inv have "subseq (with_label l b) (take c (with_label l imgs))"
          by (auto simp: cap_inv_def)
        then show ?thesis by (simp add: list_emb_prefix)
      next
        case 2
        show ?thesis
        proof (cases "l = l0")
          case True
          then show ?thesis using lt lab 2 by (simp add: with_label_single list_emb_append2)
        next
          case False
          then show ?thesis using lab 2 by (simp add: with_label_single)
        qed
      next
        case 3
        with inv have s: "subseq (with_label l b0) (take c (with_label l imgs))"
          by (auto simp: cap_inv_def)
        show ?thesis
        proof (cases "l = l0")
          case True
          with s have "subseq (with_label l b0 @ [x]) (with_label l imgs @ [x])"
            using lt by (simp add: subseq_append)
          then show ?thesis using True lt lab 3 by (simp add: with_label_single)
        next
          case False
          then show ?thesis using lab 3 s by (simp add: with_label_single list_emb_prefix)
        qed
      qed
    qed
  qed
qed

lemma cap_inv_step:
  assumes inv: "cap_inv c imgs st" and c: "1 \<le> c"
    and step: "gather_file u (Finite (real c)) syn s0 st = Inr st'"
  shows "cap_inv c (imgs @ sighting u syn s0) st'"
proof (cases "lower (snd (splitext s0)) \<in> set valid_extensions")
  case False
  then show ?thesis using inv step by (simp add: gather_file_def sighting_def)
next
  case ext: True
  from step ext obtain l0 f m where gl: "guess_label u syn s0 = Inr (l0, f, m)"
    by (auto simp: gather_file_def split: sum.splits)
  have sg: "sighting u syn s0 = [(s0, l0, f, m)]" by (simp add: sighting_def ext gl)
  show ?thesis
  proof (cases "map_of (counts st) l0")
    case None
    with inv have e: "with_label l0 imgs = []" by (auto simp: cap_inv_def split: if_splits)
    from step ext gl None have "st' = keep_image s0 (l0, f, m)
         (st\<lparr>counts := AList.update l0 (int (Suc (length (with_label l0 imgs)))) (counts st)\<rparr>)"
      by (simp add: gather_file_def e)
    from cap_inv_keep [OF inv c refl _ this] e show ?thesis by (simp add: sg)
  next
    case (Some k)
    with inv have ne: "with_label l0 imgs \<noteq> []" and k: "k = int (min (length (with_label l0 imgs)) c)"
      by (auto simp: cap_inv_def split: if_splits)
    show ?thesis
    proof (cases "real c \<le> of_int k")
      case True
      with step ext gl Some have "st' = st" by (simp add: gather_file_def)
      with cap_inv_drop [OF inv c _ Some True, of "(s0, l0, f, m)"] show ?thesis
        by (simp add: sg image_label_def)
    next
      case False
      with k have lt: "length (with_label l0 imgs) < c" by (simp add: min_def split: if_splits)
      with k have k': "k + 1 = int (Suc (length (with_label l0 imgs)))" by simp
      from step ext gl Some False have "st' = keep_image s0 (l0, f, m)
         (st\<lparr>counts := AList.update l0 (k + 1) (counts st)\<rparr>)"
        by (simp add: gather_file_def)
      then have "st' = keep_image s0 (l0, f, m)
         (st\<lparr>counts := AList.update l0 (int (Suc (length (with_label l0 imgs)))) (counts st)\<rparr>)"
        by (simp only: k')
      from cap_inv_keep [OF inv c refl _ this] lt show ?thesis by (simp add: sg)
    qed
  qed
qed

lemma cap_inv_files:
  assumes "cap_inv c imgs st" "1 \<le> c" "gather_files u (Finite (real c)) syn fs st = Inr st'"
  shows "cap_inv c (imgs @ sightings u syn fs) st'"
  using assms
proof (induction fs arbitrary: imgs st)
  case Nil
  then show ?case by (simp add: sightings_def)
next
  case (Cons s0 fs)
  from Cons.prems(3) obtain st1 where s1: "gather_file u (Finite (real c)) syn s0 st = Inr st1"
    and s2: "gather_files u (Finite (real c)) syn fs st1 = Inr st'"
    by (auto split: sum.splits)
  from Cons.IH [OF cap_inv_step [OF Cons.prems(1,2) s1] Cons.prems(2) s2]
  show ?case by (simp add: sightings_def)
qed

lemma buckets_sum:
  "length (with_label l (concat (map snd d))) = (\<Sum>(p, b) \<leftarrow> d. length (with_label l b))"
  by (induction d) auto

lemma all_images_sum:
  "length (with_label l (all_images st)) = (\<Sum>(p, b) \<leftarrow> imagedata st. length (with_label l b))"
  by (simp add: all_images_def buckets_sum)

lemma cap_inv_run:
  assumes "1 \<le> c" "gather_images u (Finite (real c)) syn root_path (Dir es) init_state = Inr st'"
  shows "cap_inv c (sightings u syn (files_of root_path (Dir es))) st'"
proof -
  from assms(2) have "gather_files u (Finite (real c)) syn (files_of root_path (Dir es)) init_state = Inr st'"
    by (simp add: gather_as_files)
  from cap_inv_files [OF cap_inv_init assms(1) this] show ?thesis by simp
qed

text \<open>
  C6. Gathering with an integer cap \<open>c \<ge> 1\<close>, started as \<^verbatim>\<open>main\<close> starts it: of the \<open>n\<close>
  sightings of a label, in encounter order, exactly the first \<open>min n c\<close> are kept. They
  are the images with that label over all buckets, every bucket holds its share in
  encounter order, and the counter of the label ends at \<open>min n c\<close>: once it has reached
  the cap it is not incremented.
\<close>

theorem gather_images_cap:
  fixes l :: label and u :: unicode
  defines "seen \<equiv> \<lambda>syn root_path es. with_label l (sightings u syn (files_of root_path (Dir es)))"
  assumes "1 \<le> c"
    and "gather_images u (Finite (real c)) syn root_path (Dir es) init_state = Inr st'"
  shows "mset (with_label l (all_images st')) = mset (take c (seen syn root_path es))
       \<and> (\<forall>(p, b) \<in> set (imagedata st'). subseq (with_label l b) (take c (seen syn root_path es)))
       \<and> length (with_label l (all_images st')) = min (length (seen syn root_path es)) c
       \<and> map_of (counts st') l =
           (if seen syn root_path es = [] then None
            else Some (int (min (length (seen syn root_path es)) c)))"
proof -
  from cap_inv_run [OF assms(2,3)]
  have inv: "cap_inv c (sightings u syn (files_of root_path (Dir es))) st'" .
  then have m: "mset (with_label l (all_images st')) = mset (take c (seen syn root_path es))"
    by (simp add: cap_inv_def seen_def)
  then have "size (mset (with_label l (all_images st'))) = size (mset (take c (seen syn root_path es)))"
    by simp
  then have len: "length (with_label l (all_images st')) = min (length (seen syn root_path es)) c"
    by simp
  from inv m len show ?thesis
    unfolding cap_inv_def seen_def by blast
qed

theorem gather_images_cap_witness:
  "1 \<le> (2::nat)
   \<and> gather_images sample_unicode (Finite (real 2)) None ''/r'' (Dir five_images) init_state =
       Inr \<lparr>imagedata =
                [(''train'',
                  [(''/r/train/n00000001_1.jpg'', LStr ''n00000001'', ''n00000001_1'', ''IN_''),
                   (''/r/train/n00000001_2.jpg'', LStr ''n00000001'', ''n00000001_2'', ''IN_'')])],
             counts = [(LStr ''n00000001'', 2)], stdout = []\<rparr>
   \<and> length (with_label (LStr ''n00000001'')
         (all_images \<lparr>imagedata =
                [(''train'',
                  [(''/r/train/n00000001_1.jpg'', LStr ''n00000001'', ''n00000001_1'', ''IN_''),
                   (''/r/train/n00000001_2.jpg'', LStr ''n00000001'', ''n00000001_2'', ''IN_'')])],
             counts = [(LStr ''n00000001'', 2)], stdout = []\<rparr>))
       = min (length (with_label (LStr ''n00000001'')
                (sightings sample_unicode None (files_of ''/r'' (Dir five_images))))) 2"
proof -
  have c: "1 \<le> (2::nat)" by simp
  have run: "gather_images sample_unicode (Finite (real 2)) None ''/r'' (Dir five_images) init_state =
       Inr \<lparr>imagedata =
                [(''train'',
                  [(''/r/train/n00000001_1.jpg'', LStr ''n00000001'', ''n00000001_1'', ''IN_''),
                   (''/r/train/n00000001_2.jpg'', LStr ''n00000001'', ''n00000001_2'', ''IN_'')])],
             counts = [(LStr ''n00000001'', 2)], stdout = []\<rparr>"
    by code_simp
  from gather_images_cap [OF c run, of "LStr ''n00000001''"] c run show ?thesis by blast
qed

lemma add_image_length:
  "length (with_label l (concat (map snd (add_image p x d))))
     = length (with_label l (concat (map snd d))) + length (with_label l [x])"
proof -
  have "size (mset (with_label l (concat (map snd (add_image p x d)))))
     = size (mset (with_label l (concat (map snd d))) + mset (with_label l [x]))"
    by (simp only: add_image_all)
  then show ?thesis by simp
qed

lemma count_inv_init: "count_inv init_state"
  by (simp add: count_inv_def init_state_def all_images_def)

lemma count_inv_keep:
  assumes inv: "count_inv st"
    and k: "k = (case map_of (counts st) l0 of None \<Rightarrow> 1 | Some n \<Rightarrow> n + 1)"
  shows "count_inv (keep_image s0 (l0, f, m) (st\<lparr>counts := AList.update l0 k (counts st)\<rparr>))"
proof -
  let ?st = "st\<lparr>counts := AList.update l0 k (counts st)\<rparr>"
  let ?x = "(s0, l0, f, m)"
  obtain p where img: "imagedata (keep_image s0 (l0, f, m) ?st) = add_image p ?x (imagedata st)"
    using keep_image_imagedata [of s0 "(l0, f, m)" ?st] by auto
  have len: "\<And>l. length (with_label l (all_images (keep_image s0 (l0, f, m) ?st)))
      = length (with_label l (all_images st)) + (if l = l0 then 1 else 0)"
    by (auto simp: all_images_def img add_image_length with_label_single image_label_def)
  have k': "k = int (length (with_label l0 (all_images st))) + 1"
    using inv k by (auto simp: count_inv_def split: option.splits if_splits)
  show ?thesis
    unfolding count_inv_def
  proof
    fix l
    show "map_of (counts (keep_image s0 (l0, f, m) ?st)) l =
            (if with_label l (all_images (keep_image s0 (l0, f, m) ?st)) = [] then None
             else Some (int (length (with_label l (all_images (keep_image s0 (l0, f, m) ?st))))))"
    proof (cases "l = l0")
      case True
      have "length (with_label l (all_images (keep_image s0 (l0, f, m) ?st))) \<noteq> 0"
        using len [of l] True by simp
      then have ne: "with_label l (all_images (keep_image s0 (l0, f, m) ?st)) \<noteq> []" by simp
      show ?thesis using True ne len [of l0] k' by (simp add: update_conv')
    next
      case False
      have le: "length (with_label l (all_images (keep_image s0 (l0, f, m) ?st)))
                 = length (with_label l (all_images st))"
        using len [of l] False by simp
      then have e: "(with_label l (all_images (keep_image s0 (l0, f, m) ?st)) = [])
                 = (with_label l (all_images st) = [])"
        by (metis length_0_conv)
      have c: "map_of (counts (keep_image s0 (l0, f, m) ?st)) l = map_of (counts st) l"
        using False by (simp add: update_conv')
      have i: "map_of (counts st) l =
            (if with_label l (all_images st) = [] then None
             else Some (int (length (with_label l (all_images st)))))"
        using inv by (simp add: count_inv_def)
      show ?thesis by (simp only: c i e le)
    qed
  qed
qed

lemma count_inv_step:
  assumes inv: "count_inv st" and step: "gather_file u cap syn s0 st = Inr st'"
  shows "count_inv st'"
proof (cases "lower (snd (splitext s0)) \<in> set valid_extensions")
  case False
  then show ?thesis using inv step by (simp add: gather_file_def)
next
  case ext: True
  from step ext obtain l0 f m where gl: "guess_label u syn s0 = Inr (l0, f, m)"
    by (auto simp: gather_file_def split: sum.splits)
  show ?thesis
  proof (cases "map_of (counts st) l0")
    case None
    with step ext gl have "st' = keep_image s0 (l0, f, m) (st\<lparr>counts := AList.update l0 1 (counts st)\<rparr>)"
      by (simp add: gather_file_def)
    with count_inv_keep [OF inv, of 1 l0 s0 f m] None show ?thesis by simp
  next
    case (Some k)
    show ?thesis
    proof (cases "int_ge k cap")
      case True
      with step ext gl Some have "st' = st" by (simp add: gather_file_def)
      with inv show ?thesis by simp
    next
      case False
      with step ext gl Some have "st' = keep_image s0 (l0, f, m)
          (st\<lparr>counts := AList.update l0 (k + 1) (counts st)\<rparr>)"
        by (simp add: gather_file_def)
      with count_inv_keep [OF inv, of "k + 1" l0 s0 f m] Some show ?thesis by simp
    qed
  qed
qed

lemma count_inv_files:
  "count_inv st \<Longrightarrow> gather_files u cap syn fs st = Inr st' \<Longrightarrow> count_inv st'"
proof (induction fs arbitrary: st)
  case Nil
  then show ?case by simp
next
  case (Cons s0 fs)
  then show ?case by (auto split: sum.splits dest: count_inv_step)
qed

lemma gather_file_dropped:
  assumes "map_of (counts st) l = Some k" "int_ge k cap" "guess_label u syn s0 = Inr (l, f, m)"
  shows "gather_file u cap syn s0 st = Inr st"
  using assms by (simp add: gather_file_def)

text \<open>
  C8. After a run started as \<^verbatim>\<open>main\<close> starts it, whatever the cap: the counter of a label
  is the number of its images kept, summed over the buckets of all phases, so the phases
  share it; once that counter has reached the cap, a further image with the label is
  dropped, whatever its path and phase; and with an integer cap \<open>c \<ge> 1\<close> the images of
  the label over all phases are at most \<open>c\<close>.
\<close>

theorem cap_shared_by_phases:
  fixes l :: label
  defines "kept \<equiv> \<lambda>st. \<Sum>(p, b) \<leftarrow> imagedata st. length (with_label l b)"
  assumes run: "gather_images u cap syn root_path (Dir es) init_state = Inr st'"
  shows "map_of (counts st') l = (if kept st' = 0 then None else Some (int (kept st')))
       \<and> (\<forall>k s0 f m. map_of (counts st') l = Some k \<and> int_ge k cap
              \<and> guess_label u syn s0 = Inr (l, f, m)
            \<longrightarrow> gather_file u cap syn s0 st' = Inr st')
       \<and> (\<forall>c. 1 \<le> c \<and> cap = Finite (real c) \<longrightarrow> kept st' \<le> c)"
proof -
  from run have files: "gather_files u cap syn (files_of root_path (Dir es)) init_state = Inr st'"
    by (simp add: gather_as_files)
  from count_inv_files [OF count_inv_init files] have inv: "count_inv st'" .
  have t: "kept st' = length (with_label l (all_images st'))"
    by (simp add: kept_def all_images_sum)
  have one: "map_of (counts st') l = (if kept st' = 0 then None else Some (int (kept st')))"
    using inv by (simp add: count_inv_def t)
  have two: "\<forall>k s0 f m. map_of (counts st') l = Some k \<and> int_ge k cap
              \<and> guess_label u syn s0 = Inr (l, f, m)
            \<longrightarrow> gather_file u cap syn s0 st' = Inr st'"
    by (auto intro: gather_file_dropped)
  have three: "\<forall>c. 1 \<le> c \<and> cap = Finite (real c) \<longrightarrow> kept st' \<le> c"
  proof (intro allI impI)
    fix c :: nat
    assume c: "1 \<le> c \<and> cap = Finite (real c)"
    with files have "gather_files u (Finite (real c)) syn (files_of root_path (Dir es)) init_state = Inr st'"
      by simp
    from cap_inv_files [OF cap_inv_init _ this] c
    have "mset (with_label l (all_images st')) =
          mset (take c (with_label l (sightings u syn (files_of root_path (Dir es)))))"
      by (simp add: cap_inv_def)
    then have "size (mset (with_label l (all_images st'))) =
          size (mset (take c (with_label l (sightings u syn (files_of root_path (Dir es))))))"
      by simp
    then show "kept st' \<le> c" by (simp add: t)
  qed
  from one two three show ?thesis by blast
qed

theorem cap_shared_by_phases_witness:
  "gather_images sample_unicode (Finite (real 3)) None ''/r'' (Dir three_dirs) init_state = Inr three_dirs_result
   \<and> map_of (counts three_dirs_result) (LStr ''n00000001'') = Some 3
   \<and> int_ge 3 (Finite (real 3))
   \<and> guess_label sample_unicode None ''/r/test/n00000001_9.jpg'' = Inr (LStr ''n00000001'', ''n00000001_9'', ''IN_'')
   \<and> gather_file sample_unicode (Finite (real 3)) None ''/r/test/n00000001_9.jpg'' three_dirs_result
       = Inr three_dirs_result
   \<and> (\<Sum>(p, b) \<leftarrow> imagedata three_dirs_result. length (with_label (LStr ''n00000001'') b)) \<le> 3"
proof -
  have run: "gather_images sample_unicode (Finite (real 3)) None ''/r'' (Dir three_dirs) init_state
               = Inr three_dirs_result"
    by code_simp
  have cnt: "map_of (counts three_dirs_result) (LStr ''n00000001'') = Some 3"
    by code_simp
  have ge: "int_ge 3 (Finite (real 3))" by simp
  have lab: "guess_label sample_unicode None ''/r/test/n00000001_9.jpg''
               = Inr (LStr ''n00000001'', ''n00000001_9'', ''IN_'')"
    by code_simp
  note shared = cap_shared_by_phases [OF run, of "LStr ''n00000001''"]
  from shared have dropped: "\<forall>k s0 f m. map_of (counts three_dirs_result) (LStr ''n00000001'') = Some k
        \<and> int_ge k (Finite (real 3)) \<and> guess_label sample_unicode None s0 = Inr (LStr ''n00000001'', f, m)
      \<longrightarrow> gather_file sample_unicode (Finite (real 3)) None s0 three_dirs_result = Inr three_dirs_result"
    by blast
  from shared have bound: "\<forall>c. 1 \<le> c \<and> Finite (real 3) = Finite (real c)
      \<longrightarrow> (\<Sum>(p, b) \<leftarrow> imagedata three_dirs_result. length (with_label (LStr ''n00000001'') b)) \<le> c"
    by blast
  from dropped cnt ge lab
  have d: "gather_file sample_unicode (Finite (real 3)) None ''/r/test/n00000001_9.jpg'' three_dirs_result
          = Inr three_dirs_result"
    by blast
  from bound [rule_format, of 3]
  have "(\<Sum>(p, b) \<leftarrow> imagedata three_dirs_result. length (with_label (LStr ''n00000001'') b)) \<le> 3"
    by simp
  with d have "gather_file sample_unicode (Finite (real 3)) None ''/r/test/n00000001_9.jpg'' three_dirs_result
          = Inr three_dirs_result
      \<and> (\<Sum>(p, b) \<leftarrow> imagedata three_dirs_result. length (with_label (LStr ''n00000001'') b)) \<le> 3"
    by blast
  with run cnt ge lab show ?thesis by blast
qed

lemma phase_loop_found: "phase_loop elems \<noteq> [] \<Longrightarrow> has_phase_name (phase_loop elems)"
  by (induction elems) (auto split: if_splits)

lemma phase_loop_none: "\<forall>seg \<in> set elems. \<not> has_phase_name seg \<Longrightarrow> phase_loop elems = []"
  by (induction elems) auto

lemma assume_phase_last: "assume_phase phase ks = (if ks = [] then phase else last ks)"
  by (induction phase ks rule: assume_phase.induct) auto

lemma add_image_keys: "fst ` set (add_image p x d) = insert p (fst ` set d)"
proof -
  from add_image_cases [of d p x] show ?thesis
  proof (elim disjE exE conjE)
    fix d1 b d2
    assume "d = d1 @ (p, b) # d2" "add_image p x d = d1 @ (p, b @ [x]) # d2"
    then show ?thesis by (simp add: image_Un insert_commute)
  next
    assume "p \<notin> fst ` set d" "add_image p x d = d @ [(p, [x])]"
    then show ?thesis by simp
  qed
qed

lemma training_ok: "has_phase_name ''training''"
  by (simp add: has_phase_name_def valid_phases_def lower_def lower_char_def uppers_def lowers_def)

lemma keep_image_phase:
  "\<exists>p. keep_image s0 lfm st =
         st\<lparr>imagedata := add_image p (s0, lfm) (imagedata st),
            stdout := (if guess_phase s0 = [] then stdout st @ [assumed_message p s0] else stdout st)\<rparr>
       \<and> (if guess_phase s0 \<noteq> [] then p = guess_phase s0
          else if imagedata st = [] then p = ''training''
          else p = (if last (map fst (imagedata st)) = [] then ''training''
                    else last (map fst (imagedata st))))"
  by (auto simp: keep_image_def Let_def assume_phase_last)

lemma keep_image_keys_ok:
  assumes "phase_keys_ok st"
  shows "phase_keys_ok (keep_image s0 lfm st)"
proof -
  obtain p where k: "imagedata (keep_image s0 lfm st) = add_image p (s0, lfm) (imagedata st)"
    and p: "if guess_phase s0 \<noteq> [] then p = guess_phase s0
          else if imagedata st = [] then p = ''training''
          else p = (if last (map fst (imagedata st)) = [] then ''training''
                    else last (map fst (imagedata st)))"
    using keep_image_phase [of s0 lfm st] by (auto split: if_splits)
  have "has_phase_name p"
  proof (cases "guess_phase s0 = []")
    case False
    then show ?thesis using p phase_loop_found by (simp add: guess_phase_def)
  next
    case True
    show ?thesis
    proof (cases "imagedata st = []")
      case True
      then show ?thesis using p \<open>guess_phase s0 = []\<close> training_ok by simp
    next
      case False
      then have "last (map fst (imagedata st)) \<in> fst ` set (imagedata st)"
        by (metis last_in_set list.map_disc_iff list.set_map)
      then show ?thesis using p True False assms training_ok
        by (auto simp: phase_keys_ok_def)
    qed
  qed
  then show ?thesis using assms by (auto simp: phase_keys_ok_def k add_image_keys)
qed

lemma gather_file_keys_ok:
  assumes "phase_keys_ok st" "gather_file u cap syn s0 st = Inr st'"
  shows "phase_keys_ok st'"
proof -
  have c: "\<And>cs. phase_keys_ok (st\<lparr>counts := cs\<rparr>)" using assms(1) by (simp add: phase_keys_ok_def)
  from assms(2) show ?thesis
    using assms(1) keep_image_keys_ok [OF c]
    by (auto simp: gather_file_def split: if_splits sum.splits option.splits prod.splits)
qed

lemma gather_files_keys_ok:
  "phase_keys_ok st \<Longrightarrow> gather_files u cap syn fs st = Inr st' \<Longrightarrow> phase_keys_ok st'"
proof (induction fs arbitrary: st)
  case Nil
  then show ?case by simp
next
  case (Cons s0 fs)
  then show ?case by (auto split: sum.splits dest: gather_file_keys_ok)
qed

lemma init_keys_ok: "phase_keys_ok init_state"
  by (simp add: phase_keys_ok_def init_state_def)

text \<open>
  C2. Gathering is started as \<^verbatim>\<open>main\<close> starts it and has reached, after the files \<open>before\<close>,
  an image whose path has no segment containing \<^verbatim>\<open>train\<close>, \<^verbatim>\<open>test\<close> or \<^verbatim>\<open>val\<close>, and the cap
  leaves room for its label. Then the image goes to a phase \<open>p\<close> that is an observed phase
  matching a known token if there is one and \<^verbatim>\<open>training\<close> otherwise, and the message
  naming \<open>p\<close> is printed.
\<close>

theorem gather_assumes_phase:
  assumes reach: "gather_files u cap syn before init_state = Inr st"
    and nophase: "\<forall>seg \<in> set (path_elems s0). \<not> has_phase_name seg"
    and ext: "lower (snd (splitext s0)) \<in> set valid_extensions"
    and lab: "guess_label u syn s0 = Inr (l, full_label, meta)"
    and room: "case map_of (counts st) l of None \<Rightarrow> True | Some k \<Rightarrow> \<not> int_ge k cap"
  shows "\<exists>p st'. gather_file u cap syn s0 st = Inr st'
           \<and> imagedata st' = add_image p (s0, l, full_label, meta) (imagedata st)
           \<and> stdout st' = stdout st @ [assumed_message p s0]
           \<and> (if \<exists>k \<in> fst ` set (imagedata st). has_phase_name k
              then p \<in> fst ` set (imagedata st) \<and> has_phase_name p
              else p = ''training'')"
proof -
  from gather_files_keys_ok [OF init_keys_ok reach] have ok: "phase_keys_ok st" .
  have gp: "guess_phase s0 = []"
    using nophase by (simp add: guess_phase_def phase_loop_none)
  define k' where "k' = (case map_of (counts st) l of None \<Rightarrow> 1 | Some k \<Rightarrow> k + 1)"
  define st1 where "st1 = st\<lparr>counts := AList.update l k' (counts st)\<rparr>"
  have step: "gather_file u cap syn s0 st = Inr (keep_image s0 (l, full_label, meta) st1)"
    using ext lab room by (auto simp: gather_file_def st1_def k'_def split: option.splits)
  obtain p where k: "keep_image s0 (l, full_label, meta) st1 =
         st1\<lparr>imagedata := add_image p (s0, l, full_label, meta) (imagedata st1),
            stdout := stdout st1 @ [assumed_message p s0]\<rparr>"
    and p: "if imagedata st1 = [] then p = ''training''
          else p = (if last (map fst (imagedata st1)) = [] then ''training''
                    else last (map fst (imagedata st1)))"
    using keep_image_phase [of s0 "(l, full_label, meta)" st1] gp by auto
  have i1: "imagedata st1 = imagedata st" and o1: "stdout st1 = stdout st" by (simp_all add: st1_def)
  have ph: "if \<exists>k \<in> fst ` set (imagedata st). has_phase_name k
              then p \<in> fst ` set (imagedata st) \<and> has_phase_name p
              else p = ''training''"
  proof (cases "imagedata st = []")
    case True
    then show ?thesis using p i1 by simp
  next
    case False
    then have m: "last (map fst (imagedata st)) \<in> fst ` set (imagedata st)"
      by (metis last_in_set list.map_disc_iff list.set_map)
    with ok have h: "has_phase_name (last (map fst (imagedata st)))"
      unfolding phase_keys_ok_def by blast
    have "\<not> has_phase_name []"
      by (simp add: has_phase_name_def valid_phases_def lower_def)
    with h have "last (map fst (imagedata st)) \<noteq> []" by auto
    with p i1 False have "p = last (map fst (imagedata st))" by simp
    with m h show ?thesis by auto
  qed
  show ?thesis
    using step k ph i1 o1 by (intro exI [of _ p] exI [of _ "keep_image s0 (l, full_label, meta) st1"]) simp
qed

theorem gather_assumes_phase_witness:
  "gather_files sample_unicode (Finite 2) None [''/r/train/n00000001_1.jpg''] init_state =
       Inr \<lparr>imagedata =
                [(''train'',
                  [(''/r/train/n00000001_1.jpg'', LStr ''n00000001'', ''n00000001_1'', ''IN_'')])],
             counts = [(LStr ''n00000001'', 1)], stdout = []\<rparr>
   \<and> guess_phase ''/r/misc/n00000002_7.png'' = []
   \<and> lower (snd (splitext ''/r/misc/n00000002_7.png'')) \<in> set valid_extensions
   \<and> guess_label sample_unicode None ''/r/misc/n00000002_7.png'' = Inr (LStr ''n00000002'', ''n00000002_7'', ''IN_'')
   \<and> (\<exists>p st'. gather_file sample_unicode (Finite 2) None ''/r/misc/n00000002_7.png''
              \<lparr>imagedata =
                [(''train'',
                  [(''/r/train/n00000001_1.jpg'', LStr ''n00000001'', ''n00000001_1'', ''IN_'')])],
               counts = [(LStr ''n00000001'', 1)], stdout = []\<rparr> = Inr st'
          \<and> stdout st' = [assumed_message p ''/r/misc/n00000002_7.png'']
          \<and> p \<in> {''train''} \<and> has_phase_name p)"
proof -
  let ?st = "\<lparr>imagedata =
                [(''train'',
                  [(''/r/train/n00000001_1.jpg'', LStr ''n00000001'', ''n00000001_1'', ''IN_'')])],
             counts = [(LStr ''n00000001'', 1)], stdout = []\<rparr>"
  have reach: "gather_files sample_unicode (Finite 2) None [''/r/train/n00000001_1.jpg''] init_state = Inr ?st"
    by code_simp
  have nophase: "\<forall>seg \<in> set (path_elems ''/r/misc/n00000002_7.png''). \<not> has_phase_name seg"
    by code_simp
  have ext: "lower (snd (splitext ''/r/misc/n00000002_7.png'')) \<in> set valid_extensions"
    by code_simp
  have lab: "guess_label sample_unicode None ''/r/misc/n00000002_7.png'' = Inr (LStr ''n00000002'', ''n00000002_7'', ''IN_'')"
    by code_simp
  have room: "case map_of (counts ?st) (LStr ''n00000002'') of None \<Rightarrow> True
              | Some k \<Rightarrow> \<not> int_ge k (Finite 2)"
    by simp
  have key: "has_phase_name ''train''" by code_simp
  have gp: "guess_phase ''/r/misc/n00000002_7.png'' = []" by code_simp
  from gather_assumes_phase [OF reach nophase ext lab room] key
  have "\<exists>p st'. gather_file sample_unicode (Finite 2) None ''/r/misc/n00000002_7.png'' ?st = Inr st'
          \<and> stdout st' = [assumed_message p ''/r/misc/n00000002_7.png'']
          \<and> p \<in> {''train''} \<and> has_phase_name p"
    by auto
  with reach gp ext lab show ?thesis by blast
qed


section \<open>Boxes and the walk over annotation sources\<close>

lemma bbox_rect_to_rect: "bbox_rect b = Inr r \<Longrightarrow> r = to_rect b"
proof -
  assume a: "bbox_rect b = Inr r"
  then have "4 \<le> length b" by (auto simp: bbox_rect_def split: if_splits)
  then obtain x y w h rest where b: "b = x # y # w # h # rest"
    by (auto simp: eval_nat_numeral Suc_le_length_iff)
  with a show ?thesis by (auto simp: bbox_rect_def to_rect_def)
qed

lemma coco_loop_rects:
  "coco_loop syn cats anns acc = Inr res \<Longrightarrow>
     map rect (boxes_at res i) =
       map rect (boxes_at acc i) @ map (\<lambda>a. to_rect (bbox a)) (filter (\<lambda>a. image_id a = i) anns)"
proof (induction anns arbitrary: acc)
  case Nil
  then show ?case by simp
next
  case (Cons ann anns)
  from Cons.prems obtain name parent f lab r where
    r: "bbox_rect (bbox ann) = Inr r"
    and rest: "coco_loop syn cats anns
                 (case map_of acc (image_id ann) of
                    None \<Rightarrow> AList.update (image_id ann) [\<lparr>cls = LStr lab, rect = r\<rparr>] acc
                  | Some bs \<Rightarrow> AList.update (image_id ann) (bs @ [\<lparr>cls = LStr lab, rect = r\<rparr>]) acc) = Inr res"
    by (auto split: option.splits sum.splits prod.splits)
  let ?acc = "case map_of acc (image_id ann) of
                    None \<Rightarrow> AList.update (image_id ann) [\<lparr>cls = LStr lab, rect = r\<rparr>] acc
                  | Some bs \<Rightarrow> AList.update (image_id ann) (bs @ [\<lparr>cls = LStr lab, rect = r\<rparr>]) acc"
  have acc: "boxes_at ?acc i = (if i = image_id ann then boxes_at acc i @ [\<lparr>cls = LStr lab, rect = r\<rparr>] else boxes_at acc i)"
    by (auto simp: boxes_at_def update_conv' split: option.splits)
  from Cons.IH [OF rest] acc bbox_rect_to_rect [OF r] show ?case by auto
qed

text \<open>
  C10. Whenever \<^verbatim>\<open>get_coco_bboxes\<close> returns, the rects stored for an image id are, in the
  order of the file, the \<^verbatim>\<open>bbox\<close> of each annotation of that image with \<^verbatim>\<open>[x, y, w, h]\<close>
  turned into \<^verbatim>\<open>[x, y, x+w-1, y+h-1]\<close>; so \<^verbatim>\<open>[10, 20, 30, 40]\<close> gives \<^verbatim>\<open>[10, 20, 39, 59]\<close>.
\<close>

theorem coco_bbox_rect:
  assumes "read_json os fs path = Inr content"
    and "get_coco_bboxes os syn fs path = Inr bboxes"
  shows "map rect (boxes_at bboxes i) =
           map (\<lambda>a. to_rect (bbox a)) (filter (\<lambda>a. image_id a = i) (coco_annotations content))
       \<and> to_rect [x, y, w, h] = [x, y, x + w - 1, y + h - 1]"
proof -
  from assms have "parse_coco syn content = Inr bboxes"
    by (simp add: get_coco_bboxes_def)
  then have "map rect (boxes_at bboxes i) =
           map (\<lambda>a. to_rect (bbox a)) (filter (\<lambda>a. image_id a = i) (coco_annotations content))"
    using coco_loop_rects [of syn _ _ "[]" bboxes i]
    by (simp add: parse_coco_def boxes_at_def)
  then show ?thesis by (simp add: to_rect_def)
qed

theorem coco_bbox_rect_witness:
  "read_json plain_os coco_fs ''/ann/instances_train2014.json'' = Inr one_annotation
   \<and> get_coco_bboxes plain_os (Some demo_syn) coco_fs ''/ann/instances_train2014.json''
       = Inr [(42, [\<lparr>cls = LStr ''n00007846'', rect = [10, 20, 39, 59]\<rparr>])]
   \<and> map rect (boxes_at [(42, [\<lparr>cls = LStr ''n00007846'', rect = [10, 20, 39, 59]\<rparr>])] 42)
       = map (\<lambda>a. to_rect (bbox a))
           (filter (\<lambda>a. image_id a = 42) (coco_annotations one_annotation))
   \<and> to_rect [10, 20, 30, 40] = [10, 20, 10 + 30 - 1, 20 + 40 - 1]"
proof -
  have r: "read_json plain_os coco_fs ''/ann/instances_train2014.json'' = Inr one_annotation"
    by code_simp
  have g: "get_coco_bboxes plain_os (Some demo_syn) coco_fs ''/ann/instances_train2014.json''
       = Inr [(42, [\<lparr>cls = LStr ''n00007846'', rect = [10, 20, 39, 59]\<rparr>])]"
    by code_simp
  from coco_bbox_rect [OF r g, of 42 10 20 30 40] r g show ?thesis by blast
qed











text \<open>
  C4. A COCO image (\<^verbatim>\<open>meta\<close> starts with \<^verbatim>\<open>COCO_\<close>) with the synset service present: the search
  of the sources stops at an instances file of the phase, and the boxes parsed from it, or
  cached for its name, have no key for the integer label. Then \<^verbatim>\<open>get_boxes\<close> returns the
  empty list, with no fallback box, and the loop of \<^verbatim>\<open>main\<close> prints its notice and leaves
  both output files as they are.
\<close>

theorem coco_absent_image:
  fixes st :: "'fs emitter" and path :: string and bboxes :: "(int \<times> box list) list"
  defines "cache1 \<equiv> (case map_of (memo st) (basename path) of
                        Some b \<Rightarrow> memo st
                      | None \<Rightarrow> AList.update (basename path) bboxes (memo st))"
  assumes coco: "prefix ''COCO_'' meta"
    and syn: "syn_cache = Some synset_offset"
    and found: "coco_search fuel os phase sources (disk st) = Some (Inr (ys, Some path, fs1))"
    and parsed: "(case map_of (memo st) (basename path) of
                    Some b \<Rightarrow> Inr b
                  | None \<Rightarrow> get_coco_bboxes os syn_cache fs1 path) = Inr bboxes"
    and absent: "i \<notin> fst ` set bboxes"
  shows "get_boxes fuel os syn_cache phase full_label (LInt i) meta sources (memo st) (disk st)
             = Some (Inr ([], cache1, fs1, []))
         \<and> emit_image fuel os syn_cache root_path sources phase (p, LInt i, full_label, meta) st
             = Some (Inr (st\<lparr>console := console st @ [''No annotation for '' @ p],
                            memo := cache1, disk := fs1\<rparr>))"
proof -
  have c1: "(case map_of (memo st) (basename path) of
                 Some bboxes \<Rightarrow> Inr (memo st)
               | None \<Rightarrow>
                   (case get_coco_bboxes os syn_cache fs1 path of
                      Inl e \<Rightarrow> Inl e
                    | Inr bboxes \<Rightarrow> Inr (AList.update (basename path) bboxes (memo st)))) = Inr cache1"
    using parsed by (auto simp: cache1_def split: option.splits)
  have c2: "map_of cache1 (basename path) = Some bboxes"
    using parsed by (auto simp: cache1_def update_conv' split: option.splits)
  have c3: "cache_lookup bboxes (LInt i) = None"
    using absent by (simp add: map_of_eq_None_iff)
  have cb: "coco_boxes os syn_cache (LInt i) path (memo st) fs1 = Some (Inr ([], cache1, fs1, []))"
    unfolding coco_boxes_def Let_def c1 using c2 c3 by simp
  have gb: "get_boxes fuel os syn_cache phase full_label (LInt i) meta sources (memo st) (disk st)
             = Some (Inr ([], cache1, fs1, []))"
    using coco syn found cb by (simp add: get_boxes_def)
  have "emit_image fuel os syn_cache root_path sources phase (p, LInt i, full_label, meta) st
             = Some (Inr (st\<lparr>console := console st @ [''No annotation for '' @ p],
                            memo := cache1, disk := fs1\<rparr>))"
    using gb by (simp add: emit_image_def)
  with gb show ?thesis by blast
qed

theorem coco_absent_image_witness:
  "prefix ''COCO_'' ''COCO_''
   \<and> coco_search 3 plain_os ''train'' [''/ann''] coco_fs
       = Some (Inr ([''/ann/instances_train2014.json''], Some ''/ann/instances_train2014.json'', coco_fs))
   \<and> get_coco_bboxes plain_os (Some demo_syn) coco_fs ''/ann/instances_train2014.json''
       = Inr [(42, [\<lparr>cls = LStr ''n00007846'', rect = [10, 20, 39, 59]\<rparr>])]
   \<and> (7::int) \<notin> fst ` set [(42, [\<lparr>cls = LStr ''n00007846'', rect = [10, 20, 39, 59]\<rparr>])]
   \<and> get_boxes 3 plain_os (Some demo_syn) ''train'' ''000000000007'' (LInt 7) ''COCO_'' [''/ann'']
         [] coco_fs
       = Some (Inr ([], [(''instances_train2014.json'',
                          [(42, [\<lparr>cls = LStr ''n00007846'', rect = [10, 20, 39, 59]\<rparr>])])],
                    coco_fs, []))
   \<and> emit_image 3 plain_os (Some demo_syn) ''/data'' [''/ann''] ''train''
         (''/data/train/000000000007.jpg'', LInt 7, ''000000000007'', ''COCO_'')
         \<lparr>tsv_file = [], idx_file = [], console = [], memo = [], disk = coco_fs\<rparr>
       = Some (Inr \<lparr>tsv_file = [], idx_file = [],
                     console = [''No annotation for /data/train/000000000007.jpg''],
                     memo = [(''instances_train2014.json'',
                              [(42, [\<lparr>cls = LStr ''n00007846'', rect = [10, 20, 39, 59]\<rparr>])])],
                     disk = coco_fs\<rparr>)"
proof -
  let ?st = "\<lparr>tsv_file = [], idx_file = [], console = [], memo = [], disk = coco_fs\<rparr>"
  have coco: "prefix ''COCO_'' ''COCO_''" by simp
  have search: "coco_search 3 plain_os ''train'' [''/ann''] coco_fs
       = Some (Inr ([''/ann/instances_train2014.json''], Some ''/ann/instances_train2014.json'', coco_fs))"
    by code_simp
  then have found: "coco_search 3 plain_os ''train'' [''/ann''] (disk ?st)
       = Some (Inr ([''/ann/instances_train2014.json''], Some ''/ann/instances_train2014.json'', coco_fs))"
    by simp
  have g: "get_coco_bboxes plain_os (Some demo_syn) coco_fs ''/ann/instances_train2014.json''
       = Inr [(42, [\<lparr>cls = LStr ''n00007846'', rect = [10, 20, 39, 59]\<rparr>])]"
    by code_simp
  have parsed: "(case map_of (memo ?st) (basename ''/ann/instances_train2014.json'') of
                    Some b \<Rightarrow> Inr b
                  | None \<Rightarrow> get_coco_bboxes plain_os (Some demo_syn) coco_fs ''/ann/instances_train2014.json'')
                = Inr [(42, [\<lparr>cls = LStr ''n00007846'', rect = [10, 20, 39, 59]\<rparr>])]"
    using g by simp
  have absent: "(7::int) \<notin> fst ` set [(42, [\<lparr>cls = LStr ''n00007846'', rect = [10, 20, 39, 59]\<rparr>])]"
    by simp
  have b: "basename ''/ann/instances_train2014.json'' = ''instances_train2014.json''"
    by code_simp
  from coco_absent_image [OF coco refl found parsed absent,
      of "''000000000007''" "''/data''" "''/data/train/000000000007.jpg''"]
  have "get_boxes 3 plain_os (Some demo_syn) ''train'' ''000000000007'' (LInt 7) ''COCO_'' [''/ann'']
         [] coco_fs
       = Some (Inr ([], [(''instances_train2014.json'',
                          [(42, [\<lparr>cls = LStr ''n00007846'', rect = [10, 20, 39, 59]\<rparr>])])],
                    coco_fs, []))
   \<and> emit_image 3 plain_os (Some demo_syn) ''/data'' [''/ann''] ''train''
         (''/data/train/000000000007.jpg'', LInt 7, ''000000000007'', ''COCO_'') ?st
       = Some (Inr \<lparr>tsv_file = [], idx_file = [],
                     console = [''No annotation for /data/train/000000000007.jpg''],
                     memo = [(''instances_train2014.json'',
                              [(42, [\<lparr>cls = LStr ''n00007846'', rect = [10, 20, 39, 59]\<rparr>])])],
                     disk = coco_fs\<rparr>)"
    by (simp add: b)
  with coco search g absent show ?thesis by simp
qed

text \<open>
  A COCO image is not looked up without the synset service: \<^verbatim>\<open>get_boxes\<close> raises the
  exception of line 286 before any search.
\<close>

lemma coco_needs_service:
  assumes "prefix ''COCO_'' meta"
  shows "get_boxes fuel os None phase full_label l meta sources pc fs = Some (Inl WordnetNotFound)"
  using assms by (simp add: get_boxes_def)

text \<open>
  With the service present, when the search of the sources ends without an instances file
  of the phase, the COCO branch neither returns nor raises: the result of \<^verbatim>\<open>get_boxes\<close> is
  that of the search of the VOC files, run with the label of the image on the file system
  as the first search left it.
\<close>

lemma coco_falls_through:
  assumes "prefix ''COCO_'' meta"
    and "coco_search fuel os phase sources fs = Some (Inr (ys, None, fs1))"
  shows "get_boxes fuel os (Some synset_offset) phase full_label l meta sources pc fs
           = voc_boxes fuel os full_label l sources pc fs1"
  using assms by (simp add: get_boxes_def)

text \<open>
  The filter of the VOC search, \<^verbatim>\<open>label in elem\<close>, raises on the first name it is asked
  about when the label is an integer. So the VOC search with an integer label raises as
  soon as it lists a directory with an entry that is not hidden.
\<close>

lemma filter_list_int_label:
  "filter_list (voc_ann_filter (LInt i)) names = (if names = [] then Inr [] else Inl TypeError)"
  by (cases names) auto

lemma voc_search_int_label:
  assumes "os_isdir os fs src" and "os_listdir os fs src = Inr names"
    and "filter (\<lambda>s0. \<not> hidden s0) names \<noteq> []"
  shows "voc_search (Suc n) os full_label (LInt i) (src # rest) fs = Some (Inl TypeError)"
  using assms by (simp add: voc_search_def select_sub_paths_def filter_list_int_label)

lemma coco_unmatched_raises:
  assumes "prefix ''COCO_'' meta"
    and "coco_search (Suc n) os phase (src # rest) fs = Some (Inr (ys, None, fs1))"
    and "os_isdir os fs1 src" and "os_listdir os fs1 src = Inr names"
    and "filter (\<lambda>s0. \<not> hidden s0) names \<noteq> []"
  shows "get_boxes (Suc n) os (Some synset_offset) phase full_label (LInt i) meta (src # rest) pc fs
           = Some (Inl TypeError)"
  using coco_falls_through [OF assms(1,2)] voc_search_int_label [OF assms(3,4,5)]
  by (simp add: voc_boxes_def)

text \<open>
  C5. The claim: for a COCO image with no instances file of the phase among the sources,
  control falls through to the search of the VOC files with the integer label, and to the
  box \<^verbatim>\<open>[0, 0, 0, 0]\<close> if that search finds nothing. The image \<^verbatim>\<open>000000000042\<close> of phase
  \<^verbatim>\<open>val\<close>, label 42, with the directory \<^verbatim>\<open>/ann\<close> as the one source: the directory holds an
  instances file of phase \<^verbatim>\<open>train\<close> only, so the first search ends without a match and
  leaves the file system as it was; no VOC file is there for the second search to find;
  and \<^verbatim>\<open>get_boxes\<close> gives no box but raises \<^verbatim>\<open>TypeError\<close>, from \<^verbatim>\<open>label in elem\<close> of line 306
  with the integer label on the first entry of \<^verbatim>\<open>/ann\<close>. The branch of line 301, which says
  that COCO needs the category of the annotation file, returns an empty list for an image
  it does not find.
\<close>

theorem coco_unmatched_type_error:
  "coco_search 3 plain_os ''val'' [''/ann''] coco_fs
     = Some (Inr ([''/ann/instances_train2014.json'', ''/ann/captions_train2014.json''], None, coco_fs))
   \<and> listarchive 3 plain_os (\<lambda>p. False) ''/ann'' True xml_pattern None coco_fs
     = Some (Inr ([], None, coco_fs))
   \<and> get_boxes 3 plain_os (Some demo_syn) ''val'' ''000000000042'' (LInt 42) ''COCO_''
         [''/ann''] [] coco_fs
       = Some (Inl TypeError)"
  by code_simp

text \<open>
  C3. The claim: an archive with a member whose resolved path escapes the destination
  aborts before a file is written. The member \<^verbatim>\<open>../extracted_ann2/evil.xml\<close> of
  \<^verbatim>\<open>/data/ann.tar\<close> resolves to \<^verbatim>\<open>/data/extracted_ann2/evil.xml\<close>, outside the destination
  \<^verbatim>\<open>/data/extracted_ann\<close>; the check compares strings, finds the destination a prefix, and
  \<^verbatim>\<open>safe_extract\<close> goes on to \<^verbatim>\<open>extractall\<close>. A zip archive is handed to \<^verbatim>\<open>extractall\<close>
  with no check at all.
\<close>

theorem traversal_check_misses:
  "escapes ''/'' ''/data/extracted_ann'' ''../extracted_ann2/evil.xml''
   \<and> \<not> traversal_attempt ''/'' ''/data/extracted_ann'' [''../extracted_ann2/evil.xml'']
   \<and> safe_extract (os\<lparr>os_getcwd := \<lambda>fs. ''/'',
                       tar_getmembers := \<lambda>fs tar. Inr [''../extracted_ann2/evil.xml'']\<rparr>)
        fs ''/data/ann.tar'' ''/data/extracted_ann''
       = tar_extractall os fs ''/data/ann.tar'' ''/data/extracted_ann''
   \<and> extract_archive os ''.zip'' ''/data/ann.zip'' ''/data/extracted_ann'' fs
       = zip_extractall os fs ''/data/ann.zip'' ''/data/extracted_ann''"
proof -
  have e: "escapes ''/'' ''/data/extracted_ann'' ''../extracted_ann2/evil.xml''"
    by code_simp
  have t: "\<not> traversal_attempt ''/'' ''/data/extracted_ann'' [''../extracted_ann2/evil.xml'']"
    by code_simp
  show ?thesis using e t by (simp add: safe_extract_def extract_archive_def)
qed


end
